theory Spec2Isabelle
  imports Complex_Main "HOL-Library.Multiset" "HOL-Library.List_Lexorder" "HOL-Library.Char_ord"
begin

section \<open>Text primitives of the Python runtime\<close>

text \<open>
  Strings are modelled as lists of characters and read as 7-bit ASCII text: the
  whitespace class is the one \<^verbatim>\<open>str.strip\<close>, \<^verbatim>\<open>str.isspace\<close> and the regex class
  \<^verbatim>\<open>\s\<close> share on ASCII (TAB, LF, VT, FF, CR, FS, GS, RS, US and the blank),
  \<^verbatim>\<open>str.upper\<close> maps a..z to A..Z and leaves every other character alone. A missing
  cell (None, NaN) is \<open>None\<close>; \<^verbatim>\<open>pd.isna\<close> is the test for it.
\<close>

definition isspace :: "char \<Rightarrow> bool" where
  "isspace c = (of_char c \<in> {9, 10, 11, 12, 13, 28, 29, 30, 31, 32 :: nat})"

definition to_upper :: "char \<Rightarrow> char" where
  "to_upper c =
     (let n = (of_char c :: nat) in if 97 \<le> n \<and> n \<le> 122 then char_of (n - 32) else c)"

definition upper :: "string \<Rightarrow> string" where
  "upper s = map to_upper s"

definition lstrip :: "string \<Rightarrow> string" where
  "lstrip s = dropWhile isspace s"

definition rstrip :: "string \<Rightarrow> string" where
  "rstrip s = rev (dropWhile isspace (rev s))"

definition strip :: "string \<Rightarrow> string" where
  "strip s = rstrip (lstrip s)"

text \<open>\<^verbatim>\<open>re.sub(r'\s+', ' ', s)\<close>: every maximal run of whitespace becomes one blank.\<close>

function collapse_ws :: "string \<Rightarrow> string" where
  "collapse_ws [] = []"
| "collapse_ws (c # cs) =
     (if isspace c then CHR '' '' # collapse_ws (dropWhile isspace cs)
      else c # collapse_ws cs)"
  by pat_completeness auto
termination
  by (relation "measure length") (auto simp: length_dropWhile_le less_Suc_eq_le)

definition endswith :: "string \<Rightarrow> string \<Rightarrow> bool" where
  "endswith s suf = (length suf \<le> length s \<and> drop (length s - length suf) s = suf)"

text \<open>
  \<^verbatim>\<open>re.sub(r'\s+' + word + '$', '', s)\<close>. Without the MULTILINE flag \<^verbatim>\<open>$\<close> holds at the
  end of the string and also just before a line feed that ends the string. The
  leftmost match starts where the whitespace run in front of the word starts, so
  the whole run goes with the word. \<open>suffix_match\<close> is whether the pattern matches.
\<close>

definition suffix_cut :: "string \<Rightarrow> string \<Rightarrow> (string \<times> string) option" where
  "suffix_cut word s =
     (if endswith s word then Some (take (length s - length word) s, [])
      else if endswith s (word @ [CHR 0x0A])
        then Some (take (length s - length word - 1) s, [CHR 0x0A])
      else None)"

definition suffix_match :: "string \<Rightarrow> string \<Rightarrow> bool" where
  "suffix_match word s =
     (case suffix_cut word s of
        None \<Rightarrow> False
      | Some (front, rest) \<Rightarrow> front \<noteq> [] \<and> isspace (last front))"

definition sub_suffix :: "string \<Rightarrow> string \<Rightarrow> string" where
  "sub_suffix word s =
     (case suffix_cut word s of
        None \<Rightarrow> s
      | Some (front, rest) \<Rightarrow>
          if front \<noteq> [] \<and> isspace (last front) then rstrip front @ rest else s)"

section \<open>Name normalisation (cross\_dataset\_analyzer.py, \_normalize\_names)\<close>

definition suffixes :: "string list" where
  "suffixes = [''LLC'', ''INC'', ''CORP'', ''CO'', ''LTD'', ''LP'', ''LLP'', ''PC'', ''PLC'',
               ''CORPORATION'', ''COMPANY'', ''LIMITED'', ''INCORPORATED'']"

text \<open>The loop \<^verbatim>\<open>for suffix in suffixes: name = re.sub(suffix, '', name)\<close>.\<close>

fun strip_suffixes :: "string list \<Rightarrow> string \<Rightarrow> string" where
  "strip_suffixes [] name = name"
| "strip_suffixes (w # ws) name = strip_suffixes ws (sub_suffix w name)"

definition normalize_name :: "string option \<Rightarrow> string" where
  "normalize_name name =
     (case name of
        None \<Rightarrow> []
      | Some raw \<Rightarrow> strip (collapse_ws (strip_suffixes suffixes (strip (upper raw)))))"



section \<open>Tables\<close>

text \<open>
  A pandas DataFrame is a list of column names and a list of rows; a row gives the cell
  under each column name. Cells are missing (\<open>Null\<close>: None, NaN, NaT), text, integers,
  floats (as the rational they denote) or timestamps (seconds). Reading a column that
  the table does not have is a KeyError, so every read is written with the test the
  source makes, or fails where the source makes none.
\<close>

datatype cell = Null | Str string | Intg int | Num rat | Time int

type_synonym row = "string \<Rightarrow> cell"

record frame =
  columns :: "string list"
  rows :: "row list"

datatype py_error = KeyError "string list" | ZeroDivisionError | OverflowError

text \<open>
  A Python float: finite (the rational it stands for; rounding to the nearest double
  is not modelled), an infinity, or not-a-number.
\<close>

datatype pyfloat = Fin rat | PosInf | NegInf | NaN

text \<open>
  Division of numpy integers (a column divided by a scalar) does not raise: a zero
  divisor gives not-a-number for 0/0 and an infinity otherwise.
\<close>

definition np_div :: "nat \<Rightarrow> nat \<Rightarrow> pyfloat" where
  "np_div a b = (if b = 0 then (if a = 0 then NaN else PosInf) else Fin (of_nat a / of_nat b))"

definition has_column :: "frame \<Rightarrow> string \<Rightarrow> bool" where
  "has_column df c = (c \<in> set (columns df))"

definition column :: "frame \<Rightarrow> string \<Rightarrow> cell list" where
  "column df c = map (\<lambda>r. r c) (rows df)"

text \<open>\<^verbatim>\<open>df[c] = values\<close>: the column is added at the end, or overwritten in place.\<close>

definition set_column :: "string \<Rightarrow> (row \<Rightarrow> cell) \<Rightarrow> frame \<Rightarrow> frame" where
  "set_column c f df =
     \<lparr>columns = (if c \<in> set (columns df) then columns df else columns df @ [c]),
      rows = map (\<lambda>r. r(c := f r)) (rows df)\<rparr>"

text \<open>\<^verbatim>\<open>df[mask]\<close>: the rows where the mask holds, as a new table.\<close>

definition select_rows :: "(row \<Rightarrow> bool) \<Rightarrow> frame \<Rightarrow> frame" where
  "select_rows p df = \<lparr>columns = columns df, rows = filter p (rows df)\<rparr>"

definition notna :: "cell \<Rightarrow> bool" where
  "notna c = (c \<noteq> Null)"

definition dropna :: "cell list \<Rightarrow> cell list" where
  "dropna cs = filter notna cs"

text \<open>\<^verbatim>\<open>Series.unique()\<close>: the distinct values in the order of their first appearance.\<close>

definition unique :: "'a list \<Rightarrow> 'a list" where
  "unique xs = rev (remdups (rev xs))"

text \<open>
  The \<^verbatim>\<open>.str\<close> accessor on a column of objects: a text cell is transformed, every other
  cell becomes missing.
\<close>

definition str_map :: "(string \<Rightarrow> string) \<Rightarrow> cell \<Rightarrow> cell" where
  "str_map f c = (case c of Str s \<Rightarrow> Str (f s) | _ \<Rightarrow> Null)"

definition texts :: "cell list \<Rightarrow> string list" where
  "texts cs = List.map_filter (\<lambda>c. case c of Str s \<Rightarrow> Some s | _ \<Rightarrow> None) cs"

text \<open>
  \<^verbatim>\<open>sorted(xs, key=k, reverse=True)\<close> and \<^verbatim>\<open>xs.sort(key=k, reverse=True)\<close>: descending
  by key, elements with equal keys in their original order.
\<close>

definition sort_desc :: "('a \<Rightarrow> rat) \<Rightarrow> 'a list \<Rightarrow> 'a list" where
  "sort_desc k xs = sort_key (\<lambda>x. - k x) xs"

text \<open>A row written as a record of its cells; a column not listed is missing.\<close>

definition row_of :: "(string \<times> cell) list \<Rightarrow> row" where
  "row_of kvs = (\<lambda>k. case map_of kvs k of Some c \<Rightarrow> c | None \<Rightarrow> Null)"

text \<open>
  The similarity ratio of the Levenshtein package is a parameter of the analyses. The
  package documents it as \<open>(lensum - ldist) / lensum\<close>, with \<open>lensum\<close> the sum of the two
  lengths and \<open>ldist\<close> the edit distance in which a substitution costs two, and as 1 for
  two empty strings; that is twice the length of a longest common subsequence over
  \<open>lensum\<close>. \<open>indel_ratio\<close> is this function, used where a concrete ratio is needed.
\<close>

fun lcs :: "string \<Rightarrow> string \<Rightarrow> nat" where
  "lcs [] ys = 0"
| "lcs (x # xs) [] = 0"
| "lcs (x # xs) (y # ys) =
     (if x = y then Suc (lcs xs ys) else max (lcs xs (y # ys)) (lcs (x # xs) ys))"

definition indel_ratio :: "string \<Rightarrow> string \<Rightarrow> rat" where
  "indel_ratio a b =
     (if length a + length b = 0 then 1
      else of_nat (2 * lcs a b) / of_nat (length a + length b))"

section \<open>LicenseAnalyzer (analyzer.py)\<close>

text \<open>
  \<^verbatim>\<open>_normalize_data\<close>. The date parser of pandas is a parameter: \<open>to_datetime\<close> turns a
  cell into a timestamp, or into \<open>Null\<close> when it cannot be read (\<^verbatim>\<open>errors='coerce'\<close>).
  \<open>normalize_address_cell\<close> is what the two assignments to \<^verbatim>\<open>address_normalized\<close> do to
  one cell: \<^verbatim>\<open>.str.upper().str.strip()\<close>, then \<^verbatim>\<open>.str.replace(r'\s+', ' ', regex=True)\<close>.
\<close>

definition normalize_address_cell :: "cell \<Rightarrow> cell" where
  "normalize_address_cell c = str_map collapse_ws (str_map (strip \<circ> upper) c)"

definition normalize_data :: "(cell \<Rightarrow> cell) \<Rightarrow> frame \<Rightarrow> frame" where
  "normalize_data to_datetime df0 =
     (let df1 = (if has_column df0 ''address''
                 then set_column ''address_normalized''
                        (\<lambda>r. normalize_address_cell (r ''address'')) df0
                 else df0);
          df2 = (if has_column df1 ''business_name''
                 then set_column ''business_name_normalized''
                        (\<lambda>r. str_map (strip \<circ> upper) (r ''business_name'')) df1
                 else df1);
          df3 = (if has_column df2 ''issue_date''
                 then set_column ''issue_date'' (\<lambda>r. to_datetime (r ''issue_date'')) df2
                 else df2)
      in df3)"

subsection \<open>analyze\_name\_similarity\<close>

record name_cluster =
  nc_cluster_size :: nat
  nc_names :: "string list"
  nc_license_count :: nat
  nc_addresses :: "cell list"
  nc_pattern_type :: string
  nc_risk_score :: pyfloat

text \<open>
  The inner loop over \<^verbatim>\<open>names[i+1:]\<close>: a name not yet processed whose ratio to the seed
  reaches the threshold joins the cluster and is marked processed.
\<close>

fun absorb ::
  "(string \<Rightarrow> string \<Rightarrow> rat) \<Rightarrow> rat \<Rightarrow> string \<Rightarrow> string list
     \<Rightarrow> string list \<times> string set \<Rightarrow> string list \<times> string set" where
  "absorb ratio threshold name1 [] (cluster, processed) = (cluster, processed)"
| "absorb ratio threshold name1 (name2 # rest) (cluster, processed) =
     (if name2 \<notin> processed \<and> ratio name1 name2 \<ge> threshold
      then absorb ratio threshold name1 rest (cluster @ [name2], insert name2 processed)
      else absorb ratio threshold name1 rest (cluster, processed))"

text \<open>The outer loop; it yields the clusters in the order they are appended.\<close>

fun cluster_names ::
  "(string \<Rightarrow> string \<Rightarrow> rat) \<Rightarrow> rat \<Rightarrow> string list \<Rightarrow> string set \<Rightarrow> string list list" where
  "cluster_names ratio threshold [] processed = []"
| "cluster_names ratio threshold (name1 # rest) processed =
     (if name1 \<in> processed then cluster_names ratio threshold rest processed
      else (case absorb ratio threshold name1 rest ([name1], processed) of
              (cluster, processed') \<Rightarrow>
                if length cluster > 1
                then cluster # cluster_names ratio threshold rest (insert name1 processed')
                else cluster_names ratio threshold rest processed'))"

definition make_cluster :: "frame \<Rightarrow> string list \<Rightarrow> name_cluster" where
  "make_cluster df cluster =
     (let cluster_licenses =
            select_rows (\<lambda>r. r ''business_name_normalized'' \<in> Str ` set cluster) df
      in \<lparr>nc_cluster_size = length cluster,
          nc_names = cluster,
          nc_license_count = length (rows cluster_licenses),
          nc_addresses = (if has_column cluster_licenses ''address''
                          then unique (column cluster_licenses ''address'') else []),
          nc_pattern_type = ''NAME_SIMILARITY'',
          nc_risk_score = Fin (min (of_nat (length cluster) / 10) 1)\<rparr>)"

text \<open>
  The second pass divides every cluster size by the largest one; Python's \<^verbatim>\<open>/\<close> on
  integers raises ZeroDivisionError on a zero divisor.
\<close>

definition rescore :: "name_cluster list \<Rightarrow> py_error + name_cluster list" where
  "rescore clusters =
     (if clusters = [] then Inr clusters
      else (let max_cluster_size = Max (set (map nc_cluster_size clusters))
            in if max_cluster_size = 0 then Inl ZeroDivisionError
               else Inr (map (\<lambda>c. c\<lparr>nc_risk_score :=
                                  Fin (of_nat (nc_cluster_size c) / of_nat max_cluster_size)\<rparr>)
                             clusters)))"

text \<open>
  \<open>lev\<close> is the function \<^verbatim>\<open>Levenshtein.ratio\<close>, or \<open>None\<close> when the package cannot be
  imported.
\<close>

definition analyze_name_similarity ::
  "(string \<Rightarrow> string \<Rightarrow> rat) option \<Rightarrow> frame \<Rightarrow> rat \<Rightarrow> py_error + name_cluster list" where
  "analyze_name_similarity lev df threshold =
     (case lev of
        None \<Rightarrow> Inr []
      | Some ratio \<Rightarrow>
          if \<not> has_column df ''business_name_normalized'' then Inr []
          else (let names = unique (texts (dropna (column df ''business_name_normalized'')));
                    clusters = map (make_cluster df) (cluster_names ratio threshold names {})
                in case rescore clusters of
                     Inl e \<Rightarrow> Inl e
                   | Inr scored \<Rightarrow> Inr (sort_desc (\<lambda>c. of_nat (nc_cluster_size c)) scored)))"

text \<open>
  A table of four licences: the second and the third name are close to the first one
  and not to each other, the fourth is close to the second only.
\<close>

definition example_names :: frame where
  "example_names =
     \<lparr>columns = [''license_id'', ''business_name'', ''address''],
      rows = [row_of [(''license_id'', Str ''L1''), (''business_name'', Str ''abcd''),
                      (''address'', Str ''1 Main St'')],
              row_of [(''license_id'', Str ''L2''), (''business_name'', Str ''abcdx''),
                      (''address'', Str ''2 Main St'')],
              row_of [(''license_id'', Str ''L3''), (''business_name'', Str ''yabcd''),
                      (''address'', Str ''3 Main St'')],
              row_of [(''license_id'', Str ''L4''), (''business_name'', Str ''abcdxz''),
                      (''address'', Str ''4 Main St'')]]\<rparr>"

subsection \<open>analyze\_address\_density\<close>

record density_finding =
  ad_address :: string
  ad_license_count :: nat
  ad_businesses :: "cell list"
  ad_dba_names :: "cell list"
  ad_license_types :: "cell list"
  ad_issue_dates :: "cell list"
  ad_risk_score :: pyfloat
  ad_pattern_type :: string

text \<open>
  \<^verbatim>\<open>groupby(key).agg({...})\<close> with a dictionary first checks that every column the
  dictionary names exists, and raises KeyError with the sorted list of those that do
  not; the functions given for the columns run only after that.
\<close>

definition agg_missing :: "frame \<Rightarrow> string list \<Rightarrow> string list" where
  "agg_missing df cs = sort (filter (\<lambda>c. \<not> has_column df c) cs)"

text \<open>
  The groups of \<^verbatim>\<open>groupby('address_normalized')\<close>: one per distinct key that is not
  missing, in sorted key order, each with its rows in table order.
\<close>

definition group_keys :: "frame \<Rightarrow> string \<Rightarrow> string list" where
  "group_keys df c = sort (remdups (texts (dropna (column df c))))"

definition group_rows :: "frame \<Rightarrow> string \<Rightarrow> string \<Rightarrow> row list" where
  "group_rows df c k = filter (\<lambda>r. r c = Str k) (rows df)"

definition address_group :: "frame \<Rightarrow> string \<Rightarrow> density_finding" where
  "address_group df k =
     (let x = group_rows df ''address_normalized'' k
      in \<lparr>ad_address = k,
          ad_license_count = length (dropna (map (\<lambda>r. r ''license_id'') x)),
          ad_businesses = unique (map (\<lambda>r. r ''business_name'') x),
          ad_dba_names = (if has_column df ''dba_name''
                          then unique (dropna (map (\<lambda>r. r ''dba_name'') x)) else []),
          ad_license_types = (if has_column df ''license_type''
                              then unique (map (\<lambda>r. r ''license_type'') x) else []),
          ad_issue_dates = (if has_column df ''issue_date''
                            then dropna (map (\<lambda>r. r ''issue_date'') x) else []),
          ad_risk_score = NaN,
          ad_pattern_type = []\<rparr>)"

text \<open>
  The table \<^verbatim>\<open>flagged\<close>: the groups that reach the threshold, by descending count
  (\<^verbatim>\<open>sort_values\<close> promises no order among equal counts; the model keeps them in key
  order), each count divided by the largest count.
\<close>

definition analyze_address_density :: "frame \<Rightarrow> int \<Rightarrow> py_error + density_finding list" where
  "analyze_address_density df threshold =
     (if \<not> has_column df ''address_normalized'' then Inr []
      else if agg_missing df [''license_id'', ''business_name'', ''dba_name'',
                               ''license_type'', ''issue_date''] \<noteq> []
        then Inl (KeyError (agg_missing df [''license_id'', ''business_name'', ''dba_name'',
                                             ''license_type'', ''issue_date'']))
      else (let address_groups = map (address_group df) (group_keys df ''address_normalized'');
                flagged = sort_desc (\<lambda>g. of_nat (ad_license_count g))
                            (filter (\<lambda>g. threshold \<le> int (ad_license_count g)) address_groups);
                mx = (if flagged = [] then 0 else Max (set (map ad_license_count flagged)))
            in Inr (map (\<lambda>g. g\<lparr>ad_risk_score := np_div (ad_license_count g) mx,
                                 ad_pattern_type := ''ADDRESS_CLUSTERING''\<rparr>) flagged)))"

subsection \<open>analyze\_temporal\_clustering\<close>

record temporal_cluster =
  tc_window_start :: int
  tc_window_end :: int
  tc_license_count :: nat
  tc_businesses :: "cell list"
  tc_addresses :: "cell list"
  tc_pattern_type :: string
  tc_risk_score :: pyfloat

text \<open>
  After \<^verbatim>\<open>_normalize_data\<close> the column \<^verbatim>\<open>issue_date\<close> holds timestamps and missing values
  only. Timestamps count seconds; a day has 86400 of them and \<^verbatim>\<open>.date()\<close> is the day
  number.
\<close>

definition the_time :: "cell \<Rightarrow> int" where
  "the_time c = (case c of Time t \<Rightarrow> t | _ \<Rightarrow> 0)"

definition day_of :: "int \<Rightarrow> int" where
  "day_of t = t div 86400"

text \<open>
  One pass of the loop over the dated licences: the window around the row's date, the
  rows inside it and, when they reach the threshold, the cluster with its key. Reading
  \<^verbatim>\<open>business_name\<close> is unguarded in the source.
\<close>

definition window_cluster ::
  "frame \<Rightarrow> int \<Rightarrow> int \<Rightarrow> row \<Rightarrow> py_error + ((int \<times> int) \<times> temporal_cluster) option" where
  "window_cluster dated window_days threshold r =
     (let date = the_time (r ''issue_date'');
          window_start = date - window_days * 86400;
          window_end = date + window_days * 86400;
          in_window = filter (\<lambda>x. window_start \<le> the_time (x ''issue_date'')
                                   \<and> the_time (x ''issue_date'') \<le> window_end) (rows dated)
      in if threshold \<le> int (length in_window)
         then (if \<not> has_column dated ''business_name'' then Inl (KeyError [''business_name''])
               else Inr (Some ((day_of window_start, day_of window_end),
                   \<lparr>tc_window_start = window_start,
                    tc_window_end = window_end,
                    tc_license_count = length in_window,
                    tc_businesses = unique (map (\<lambda>x. x ''business_name'') in_window),
                    tc_addresses = (if has_column dated ''address''
                                    then unique (map (\<lambda>x. x ''address'') in_window) else []),
                    tc_pattern_type = ''TEMPORAL_CLUSTERING'',
                    tc_risk_score = NaN\<rparr>)))
         else Inr None)"

fun window_clusters ::
  "frame \<Rightarrow> int \<Rightarrow> int \<Rightarrow> row list \<Rightarrow> py_error + ((int \<times> int) \<times> temporal_cluster) list" where
  "window_clusters dated window_days threshold [] = Inr []"
| "window_clusters dated window_days threshold (r # rs) =
     (case window_cluster dated window_days threshold r of
        Inl e \<Rightarrow> Inl e
      | Inr found \<Rightarrow>
          (case window_clusters dated window_days threshold rs of
             Inl e \<Rightarrow> Inl e
           | Inr later \<Rightarrow> Inr ((case found of None \<Rightarrow> [] | Some c \<Rightarrow> [c]) @ later)))"

text \<open>\<^verbatim>\<open>drop_duplicates(subset=['cluster_key'])\<close> keeps the first row of each key.\<close>

fun drop_duplicates :: "('k \<times> 'v) list \<Rightarrow> 'k set \<Rightarrow> ('k \<times> 'v) list" where
  "drop_duplicates [] seen = []"
| "drop_duplicates ((k, v) # kvs) seen =
     (if k \<in> seen then drop_duplicates kvs seen else (k, v) # drop_duplicates kvs (insert k seen))"

text \<open>
  The part of the method after the dated licences are selected and sorted: the window
  scan, the removal of duplicate windows and the scores.
\<close>

definition temporal_clusters ::
  "frame \<Rightarrow> int \<Rightarrow> int \<Rightarrow> py_error + temporal_cluster list" where
  "temporal_clusters dated window_days threshold =
     (case window_clusters dated window_days threshold (rows dated) of
        Inl e \<Rightarrow> Inl e
      | Inr clusters \<Rightarrow>
          if clusters = [] then Inr []
          else (let cluster_df = sort_desc (\<lambda>c. of_nat (tc_license_count c))
                                   (map snd (drop_duplicates clusters {}));
                    mx = Max (set (map tc_license_count cluster_df))
                in Inr (map (\<lambda>c. c\<lparr>tc_risk_score := np_div (tc_license_count c) mx\<rparr>)
                            cluster_df)))"

definition analyze_temporal_clustering ::
  "frame \<Rightarrow> int \<Rightarrow> int \<Rightarrow> py_error + temporal_cluster list" where
  "analyze_temporal_clustering df window_days threshold =
     (if \<not> has_column df ''issue_date'' then Inr []
      else (let dated0 = select_rows (\<lambda>r. notna (r ''issue_date'')) df;
                dated = dated0\<lparr>rows := sort_key (\<lambda>r. the_time (r ''issue_date'')) (rows dated0)\<rparr>
            in temporal_clusters dated window_days threshold))"

text \<open>A table with the three required columns and none of the optional ones.\<close>

definition example_required_only :: frame where
  "example_required_only =
     \<lparr>columns = [''license_id'', ''business_name'', ''address''],
      rows = [row_of [(''license_id'', Str ''L1''), (''business_name'', Str ''Acme LLC''),
                      (''address'', Str ''100 Main Street'')]]\<rparr>"

section \<open>CrossDatasetAnalyzer (cross\_dataset\_analyzer.py): normalisers\<close>

subsection \<open>\_parse\_currency\<close>

definition isdigit :: "char \<Rightarrow> bool" where
  "isdigit c = (48 \<le> (of_char c :: nat) \<and> (of_char c :: nat) \<le> 57)"

definition digit_value :: "char \<Rightarrow> nat" where
  "digit_value c = of_char c - 48"

definition digits_value :: "string \<Rightarrow> nat" where
  "digits_value ds = foldl (\<lambda>a c. 10 * a + digit_value c) 0 ds"

text \<open>\<^verbatim>\<open>re.sub(r'[^\d.-]', '', s)\<close>: only digits, full stops and hyphens stay.\<close>

definition clean_currency :: "string \<Rightarrow> string" where
  "clean_currency s = filter (\<lambda>c. isdigit c \<or> c = CHR ''.'' \<or> c = CHR ''-'') s"

text \<open>
  What \<^verbatim>\<open>float()\<close> accepts among strings of digits, full stops and hyphens: an optional
  leading hyphen, then digits with at most one full stop and at least one digit. The
  result is the exact decimal value; \<open>None\<close> is the ValueError.
\<close>

definition parse_decimal :: "string \<Rightarrow> rat option" where
  "parse_decimal s =
     (let neg = (s \<noteq> [] \<and> hd s = CHR ''-'');
          body = (if neg then tl s else s);
          ip = takeWhile isdigit body;
          rest = dropWhile isdigit body;
          sgn = (if neg then - 1 else 1)
      in case rest of
           [] \<Rightarrow> if ip = [] then None else Some (sgn * of_nat (digits_value ip))
         | c # fp \<Rightarrow>
             if c = CHR ''.'' \<and> list_all isdigit fp \<and> (ip \<noteq> [] \<or> fp \<noteq> [])
             then Some (sgn * (of_nat (digits_value ip)
                               + of_nat (digits_value fp) / 10 ^ length fp))
             else None)"

text \<open>
  The magnitude from which a decimal rounds beyond the largest double. \<^verbatim>\<open>float()\<close> of a
  string gives an infinity there; \<^verbatim>\<open>float()\<close> of an integer raises OverflowError.
\<close>

definition double_limit :: rat where
  "double_limit = 2 ^ 1024 - 2 ^ 970"

definition float_of_decimal :: "rat \<Rightarrow> pyfloat" where
  "float_of_decimal q =
     (if double_limit \<le> q then PosInf else if q \<le> - double_limit then NegInf else Fin q)"

definition parse_currency :: "cell \<Rightarrow> py_error + pyfloat" where
  "parse_currency v =
     (case v of
        Null \<Rightarrow> Inr (Fin 0)
      | Intg n \<Rightarrow> (if double_limit \<le> \<bar>of_int n\<bar> then Inl OverflowError
                   else Inr (Fin (of_int n)))
      | Num q \<Rightarrow> Inr (Fin q)
      | Str s \<Rightarrow> (case parse_decimal (clean_currency s) of
                    None \<Rightarrow> Inr (Fin 0)
                  | Some q \<Rightarrow> Inr (float_of_decimal q))
      | Time t \<Rightarrow> Inr (Fin 0))"

subsection \<open>normalize\_addr\<close>

text \<open>The regex class \<^verbatim>\<open>\w\<close> on ASCII: letters, digits and the underscore.\<close>

definition isword :: "char \<Rightarrow> bool" where
  "isword c =
     (let n = (of_char c :: nat)
      in (48 \<le> n \<and> n \<le> 57) \<or> (65 \<le> n \<and> n \<le> 90) \<or> (97 \<le> n \<and> n \<le> 122) \<or> n = 95)"

text \<open>
  Whether \<^verbatim>\<open>\bword\b\<close> matches at the head of \<open>s\<close>, where \<open>pw\<close> says that the character
  before \<open>s\<close> is a word character (false at the start of the string). \<^verbatim>\<open>\b\<close> holds between
  two positions exactly when one side is a word character and the other is not.
\<close>

definition word_at :: "string \<Rightarrow> bool \<Rightarrow> string \<Rightarrow> bool" where
  "word_at w pw s =
     (w \<noteq> [] \<and> take (length w) s = w
      \<and> pw \<noteq> isword (hd w)
      \<and> isword (last w) \<noteq> (drop (length w) s \<noteq> [] \<and> isword (hd (drop (length w) s))))"

text \<open>
  \<^verbatim>\<open>re.sub(r'\bword\b', repl, s)\<close>: the scan from the left; at a match the replacement is
  written and the scan goes on behind the match, otherwise one character is copied.
\<close>

function sub_word :: "string \<Rightarrow> string \<Rightarrow> bool \<Rightarrow> string \<Rightarrow> string" where
  "sub_word w repl pw [] = []"
| "sub_word w repl pw (c # cs) =
     (if word_at w pw (c # cs)
      then repl @ sub_word w repl (isword (last w)) (drop (length w) (c # cs))
      else c # sub_word w repl (isword c) cs)"
  by pat_completeness auto
termination
  by (relation "measure (\<lambda>(w, repl, pw, s). length s)") (auto simp: word_at_def)

definition replacements :: "(string \<times> string) list" where
  "replacements =
     [(''STREET'', ''ST''), (''AVENUE'', ''AVE''), (''ROAD'', ''RD''), (''BOULEVARD'', ''BLVD''),
      (''DRIVE'', ''DR''), (''LANE'', ''LN''), (''COURT'', ''CT''), (''PLACE'', ''PL''),
      (''CIRCLE'', ''CIR''), (''HIGHWAY'', ''HWY''), (''PARKWAY'', ''PKWY''),
      (''TURNPIKE'', ''TPKE'')]"

text \<open>The loop \<^verbatim>\<open>for pattern, repl in replacements.items(): addr = re.sub(...)\<close>.\<close>

fun replace_all :: "(string \<times> string) list \<Rightarrow> string \<Rightarrow> string" where
  "replace_all [] addr = addr"
| "replace_all ((w, repl) # rest) addr = replace_all rest (sub_word w repl False addr)"

definition normalize_addr :: "string option \<Rightarrow> string" where
  "normalize_addr addr =
     (case addr of
        None \<Rightarrow> []
      | Some raw \<Rightarrow> replace_all replacements (collapse_ws (strip (upper raw))))"

section \<open>CrossDatasetAnalyzer: the three tables\<close>

text \<open>
  The analyzer holds three tables. The loaders name their columns by position, so the
  licences always have \<^verbatim>\<open>business_name\<close>, \<^verbatim>\<open>dba_name\<close>, \<^verbatim>\<open>address\<close> and \<^verbatim>\<open>geo_location\<close>,
  the contracts their nine columns and \<^verbatim>\<open>contract_value_numeric\<close>, the tax records
  their seven; the tables are modelled as they stand after loading, with text columns
  holding text or missing values and numeric columns finite numbers or missing values.
  \<^verbatim>\<open>__init__\<close> then adds the normalised columns.
\<close>

record cross_analyzer =
  licenses :: frame
  contracts :: frame
  taxes :: frame

definition as_text :: "cell \<Rightarrow> string option" where
  "as_text c = (case c of Str s \<Rightarrow> Some s | _ \<Rightarrow> None)"

definition the_text :: "cell \<Rightarrow> string" where
  "the_text c = (case c of Str s \<Rightarrow> s | _ \<Rightarrow> [])"

definition cell_num :: "cell \<Rightarrow> rat option" where
  "cell_num c = (case c of Num q \<Rightarrow> Some q | Intg n \<Rightarrow> Some (of_int n) | _ \<Rightarrow> None)"

text \<open>\<^verbatim>\<open>Series.sum()\<close> and \<^verbatim>\<open>Series.mean()\<close> skip missing values.\<close>

definition sum_col :: "cell list \<Rightarrow> rat" where
  "sum_col cs = sum_list (List.map_filter cell_num cs)"

definition mean_col :: "cell list \<Rightarrow> pyfloat" where
  "mean_col cs =
     (let xs = List.map_filter cell_num cs
      in if xs = [] then NaN else Fin (sum_list xs / of_nat (length xs)))"

text \<open>A comparison of a column with a number is false on a missing value.\<close>

definition cell_ge :: "cell \<Rightarrow> rat \<Rightarrow> bool" where
  "cell_ge c x = (case cell_num c of Some q \<Rightarrow> x \<le> q | None \<Rightarrow> False)"

definition num_or_zero :: "cell \<Rightarrow> rat" where
  "num_or_zero c = (case cell_num c of Some q \<Rightarrow> q | None \<Rightarrow> 0)"

text \<open>
  \<^verbatim>\<open>round(x, n)\<close>: to \<open>n\<close> decimals, a tie going to the even neighbour (on the rational
  the float denotes).
\<close>

definition py_round :: "nat \<Rightarrow> rat \<Rightarrow> rat" where
  "py_round n x =
     (let y = x * 10 ^ n; f = \<lfloor>y\<rfloor>; d = y - of_int f
      in (if d < 1 / 2 then of_int f
          else if 1 / 2 < d then of_int (f + 1)
          else if even f then of_int f else of_int (f + 1)) / 10 ^ n)"

text \<open>
  \<^verbatim>\<open>Series.value_counts()\<close>: each distinct value with its number of occurrences, by
  descending count (the model keeps equal counts in order of first appearance).
\<close>

definition value_counts :: "string list \<Rightarrow> (string \<times> nat) list" where
  "value_counts xs =
     sort_desc (\<lambda>(v, n). of_nat n) (map (\<lambda>v. (v, count_list xs v)) (unique xs))"

definition normalize_addresses :: "cross_analyzer \<Rightarrow> cross_analyzer" where
  "normalize_addresses a =
     a\<lparr>licenses := set_column ''address_normalized''
                      (\<lambda>r. Str (normalize_addr (as_text (r ''address'')))) (licenses a),
       taxes := set_column ''address_normalized''
                      (\<lambda>r. Str (normalize_addr (as_text (r ''address'')))) (taxes a)\<rparr>"

definition normalize_names :: "cross_analyzer \<Rightarrow> cross_analyzer" where
  "normalize_names a =
     a\<lparr>licenses := set_column ''dba_normalized''
                      (\<lambda>r. Str (normalize_name (as_text (r ''dba_name''))))
                      (set_column ''business_name_normalized''
                         (\<lambda>r. Str (normalize_name (as_text (r ''business_name''))))
                         (licenses a)),
       contracts := set_column ''supplier_normalized''
                      (\<lambda>r. Str (normalize_name (as_text (r ''supplier'')))) (contracts a),
       taxes := set_column ''owner_normalized''
                      (\<lambda>r. Str (normalize_name (as_text (r ''owner_name_1'')))) (taxes a)\<rparr>"

definition cross_init :: "frame \<Rightarrow> frame \<Rightarrow> frame \<Rightarrow> cross_analyzer" where
  "cross_init l c t = normalize_names (normalize_addresses \<lparr>licenses = l, contracts = c, taxes = t\<rparr>)"

subsection \<open>analyze\_address\_clustering\<close>

record overlap_finding =
  ov_address :: string
  ov_license_count :: nat
  ov_tax_delinquent_count :: nat
  ov_businesses :: "cell list"
  ov_total_tax_due :: rat
  ov_avg_years_delinquent :: pyfloat
  ov_pattern_type :: string
  ov_risk_score :: rat

record cross_density_finding =
  cd_address :: string
  cd_license_count :: nat
  cd_businesses :: "cell list"
  cd_dbas :: "cell list"
  cd_pattern_type :: string
  cd_risk_score :: rat

record address_summary =
  total_license_addresses :: nat
  total_tax_addresses :: nat
  overlap_count :: nat
  overlap_percentage :: rat

record address_report =
  cross_dataset_overlaps :: "overlap_finding list"
  address_density :: "cross_density_finding list"
  total_shared_addresses :: nat
  address_summary :: address_summary

definition license_addresses :: "cross_analyzer \<Rightarrow> string set" where
  "license_addresses a = set (texts (dropna (column (licenses a) ''address_normalized'')))"

definition tax_addresses :: "cross_analyzer \<Rightarrow> string set" where
  "tax_addresses a = set (texts (dropna (column (taxes a) ''address_normalized'')))"

definition shared_addresses :: "cross_analyzer \<Rightarrow> string set" where
  "shared_addresses a = license_addresses a \<inter> tax_addresses a"

definition overlap_finding :: "cross_analyzer \<Rightarrow> string \<Rightarrow> overlap_finding" where
  "overlap_finding a addr =
     (let license_matches = filter (\<lambda>r. r ''address_normalized'' = Str addr) (rows (licenses a));
          tax_matches = filter (\<lambda>r. r ''address_normalized'' = Str addr) (rows (taxes a))
      in \<lparr>ov_address = addr,
          ov_license_count = length license_matches,
          ov_tax_delinquent_count = length tax_matches,
          ov_businesses = take 5 (map (\<lambda>r. r ''business_name'') license_matches),
          ov_total_tax_due = sum_col (map (\<lambda>r. r ''total_due'') tax_matches),
          ov_avg_years_delinquent = mean_col (map (\<lambda>r. r ''years_delinquent'') tax_matches),
          ov_pattern_type = ''ADDRESS_OVERLAP_LICENSE_TAX'',
          ov_risk_score = min 1 (of_nat (length license_matches + length tax_matches) / 10)\<rparr>)"

text \<open>
  Python iterates a set in an order of its own; \<open>set_iter\<close> is that order, a parameter.
  \<open>overlap_findings\<close> is the list \<^verbatim>\<open>findings\<close> after its sort, before it is cut.
\<close>

definition overlap_findings ::
  "(string set \<Rightarrow> string list) \<Rightarrow> cross_analyzer \<Rightarrow> overlap_finding list" where
  "overlap_findings set_iter a =
     sort_desc ov_risk_score
       (map (overlap_finding a) (filter (\<lambda>addr. addr \<noteq> []) (set_iter (shared_addresses a))))"

definition cross_density_finding :: "cross_analyzer \<Rightarrow> string \<times> nat \<Rightarrow> cross_density_finding" where
  "cross_density_finding a ac =
     (let matches = filter (\<lambda>r. r ''address_normalized'' = Str (fst ac)) (rows (licenses a))
      in \<lparr>cd_address = fst ac,
          cd_license_count = snd ac,
          cd_businesses = take 10 (map (\<lambda>r. r ''business_name'') matches),
          cd_dbas = take 10 (dropna (map (\<lambda>r. r ''dba_name'') matches)),
          cd_pattern_type = ''ADDRESS_DENSITY'',
          cd_risk_score = min 1 (of_nat (snd ac) / 10)\<rparr>)"

definition density_findings :: "cross_analyzer \<Rightarrow> int \<Rightarrow> cross_density_finding list" where
  "density_findings a threshold =
     sort_desc cd_risk_score
       (map (cross_density_finding a)
          (filter (\<lambda>ac. fst ac \<noteq> [])
             (filter (\<lambda>ac. threshold \<le> int (snd ac))
                (value_counts (texts (dropna (column (licenses a) ''address_normalized'')))))))"

definition analyze_address_clustering ::
  "(string set \<Rightarrow> string list) \<Rightarrow> cross_analyzer \<Rightarrow> int \<Rightarrow> address_report" where
  "analyze_address_clustering set_iter a threshold =
     \<lparr>cross_dataset_overlaps = take 50 (overlap_findings set_iter a),
      address_density = take 50 (density_findings a threshold),
      total_shared_addresses = card (shared_addresses a),
      address_summary =
        \<lparr>total_license_addresses = card (license_addresses a),
         total_tax_addresses = card (tax_addresses a),
         overlap_count = card (shared_addresses a),
         overlap_percentage =
           py_round 2 (of_nat (card (shared_addresses a))
                       / of_nat (max (card (license_addresses a)) 1) * 100)\<rparr>\<rparr>"

subsection \<open>analyze\_name\_similarity (across the tables)\<close>

record contract_match =
  cm_license_name :: string
  cm_contract_supplier :: string
  cm_similarity_score :: rat
  cm_contract_count :: nat
  cm_total_contract_value :: rat
  cm_agencies :: "cell list"
  cm_pattern_type :: string
  cm_risk_score :: rat

record tax_owner_match =
  tm_license_name :: string
  tm_tax_owner :: string
  tm_similarity_score :: rat
  tm_property_count :: nat
  tm_total_tax_due :: rat
  tm_pattern_type :: string
  tm_risk_score :: rat

record names_summary =
  total_license_names :: nat
  total_suppliers :: nat
  total_tax_owners :: nat
  license_contract_matches_found :: nat
  license_tax_matches_found :: nat

record names_report =
  license_contract_matches :: "contract_match list"
  license_tax_owner_matches :: "tax_owner_match list"
  names_summary :: names_summary

definition unique_names :: "frame \<Rightarrow> string \<Rightarrow> string list" where
  "unique_names df c = unique (texts (dropna (column df c)))"

definition contract_match ::
  "cross_analyzer \<Rightarrow> string \<Rightarrow> string \<Rightarrow> rat \<Rightarrow> contract_match" where
  "contract_match a license_name supplier similarity =
     (let supplier_contracts =
            filter (\<lambda>r. r ''supplier_normalized'' = Str supplier) (rows (contracts a));
          total_value = sum_col (map (\<lambda>r. r ''contract_value_numeric'') supplier_contracts);
          contract_count = length supplier_contracts
      in \<lparr>cm_license_name = license_name,
          cm_contract_supplier = supplier,
          cm_similarity_score = py_round 3 similarity,
          cm_contract_count = contract_count,
          cm_total_contract_value = total_value,
          cm_agencies = unique (map (\<lambda>r. r ''agency'') supplier_contracts),
          cm_pattern_type = ''LICENSE_CONTRACT_NAME_MATCH'',
          cm_risk_score = py_round 3 (similarity * min 1 (of_nat contract_count / 5))\<rparr>)"

text \<open>
  The two nested loops: every licence name of at least three characters against every
  supplier of at least three characters, a match appended when the ratio reaches the
  threshold. \<open>contract_matches\<close> is the list \<^verbatim>\<open>matches\<close> after its sort, before it is cut.
\<close>

definition contract_matches ::
  "(string \<Rightarrow> string \<Rightarrow> rat) \<Rightarrow> cross_analyzer \<Rightarrow> rat \<Rightarrow> contract_match list" where
  "contract_matches ratio a threshold =
     sort_desc cm_risk_score
       (concat (map (\<lambda>license_name.
          if length license_name < 3 then []
          else concat (map (\<lambda>supplier.
                 if length supplier < 3 then []
                 else if threshold \<le> ratio license_name supplier
                 then [contract_match a license_name supplier (ratio license_name supplier)]
                 else [])
               (unique_names (contracts a) ''supplier_normalized'')))
        (unique_names (licenses a) ''business_name_normalized'')))"

definition tax_owner_match ::
  "cross_analyzer \<Rightarrow> string \<Rightarrow> string \<Rightarrow> rat \<Rightarrow> tax_owner_match" where
  "tax_owner_match a license_name owner similarity =
     (let owner_records = filter (\<lambda>r. r ''owner_normalized'' = Str owner) (rows (taxes a));
          total_due = sum_col (map (\<lambda>r. r ''total_due'') owner_records)
      in \<lparr>tm_license_name = license_name,
          tm_tax_owner = owner,
          tm_similarity_score = py_round 3 similarity,
          tm_property_count = length owner_records,
          tm_total_tax_due = total_due,
          tm_pattern_type = ''LICENSE_TAX_OWNER_MATCH'',
          tm_risk_score = py_round 3 (similarity * min 1 (total_due / 10000))\<rparr>)"

definition tax_owner_matches ::
  "(string \<Rightarrow> string \<Rightarrow> rat) \<Rightarrow> cross_analyzer \<Rightarrow> rat \<Rightarrow> tax_owner_match list" where
  "tax_owner_matches ratio a threshold =
     sort_desc tm_risk_score
       (concat (map (\<lambda>license_name.
          if length license_name < 3 then []
          else concat (map (\<lambda>owner.
                 if length owner < 3 then []
                 else if threshold \<le> ratio license_name owner
                 then [tax_owner_match a license_name owner (ratio license_name owner)]
                 else [])
               (unique_names (taxes a) ''owner_normalized'')))
        (unique_names (licenses a) ''business_name_normalized'')))"

text \<open>
  Without the ratio package the method returns a dictionary with an error text and no
  report (\<open>Inl\<close>).
\<close>

definition cross_analyze_name_similarity ::
  "(string \<Rightarrow> string \<Rightarrow> rat) option \<Rightarrow> cross_analyzer \<Rightarrow> rat \<Rightarrow> string + names_report" where
  "cross_analyze_name_similarity lev a threshold =
     (case lev of
        None \<Rightarrow> Inl ''python-Levenshtein not installed''
      | Some ratio \<Rightarrow>
          Inr \<lparr>license_contract_matches = take 100 (contract_matches ratio a threshold),
               license_tax_owner_matches = take 100 (tax_owner_matches ratio a threshold),
               names_summary =
                 \<lparr>total_license_names = length (unique_names (licenses a) ''business_name_normalized''),
                  total_suppliers = length (unique_names (contracts a) ''supplier_normalized''),
                  total_tax_owners = length (unique_names (taxes a) ''owner_normalized''),
                  license_contract_matches_found = length (contract_matches ratio a threshold),
                  license_tax_matches_found = length (tax_owner_matches ratio a threshold)\<rparr>\<rparr>)"

subsection \<open>analyze\_tax\_delinquent\_overlaps\<close>

record business_owner_match =
  bm_tax_owner :: cell
  bm_business_name :: cell
  bm_similarity :: rat
  bm_tax_address :: cell
  bm_business_address :: cell
  bm_total_due :: cell
  bm_years_delinquent :: cell
  bm_pattern_type :: string

record supplier_tax_match =
  sm_supplier :: string
  sm_tax_owner :: cell
  sm_similarity :: rat
  sm_contract_count :: nat
  sm_contract_value :: rat
  sm_total_tax_due :: cell
  sm_years_delinquent :: cell
  sm_pattern_type :: string

record delinquency =
  dq_owner_name_1 :: cell
  dq_address :: cell
  dq_total_due :: cell
  dq_years_delinquent :: cell

record tax_summary =
  total_delinquent_properties :: nat
  total_tax_due :: rat
  high_value_count :: nat
  long_term_count :: nat
  business_matches_found :: nat
  supplier_matches_found :: nat

record tax_report =
  high_value_delinquencies :: "delinquency list"
  long_term_delinquencies :: "delinquency list"
  business_owner_matches :: "business_owner_match list"
  supplier_tax_matches :: "supplier_tax_match list"
  tax_summary :: tax_summary

text \<open>
  The two cuts of the tax table, each sorted descending on its own column
  (\<^verbatim>\<open>sort_values\<close> promises no order among equal values; the model keeps table order).
\<close>

definition high_value_delinquent :: "cross_analyzer \<Rightarrow> row list" where
  "high_value_delinquent a =
     sort_desc (\<lambda>r. num_or_zero (r ''total_due''))
       (filter (\<lambda>r. cell_ge (r ''total_due'') 5000) (rows (taxes a)))"

definition long_term :: "cross_analyzer \<Rightarrow> row list" where
  "long_term a =
     sort_desc (\<lambda>r. num_or_zero (r ''years_delinquent''))
       (filter (\<lambda>r. cell_ge (r ''years_delinquent'') 3) (rows (taxes a)))"

definition delinquency :: "row \<Rightarrow> delinquency" where
  "delinquency r =
     \<lparr>dq_owner_name_1 = r ''owner_name_1'', dq_address = r ''address'',
      dq_total_due = r ''total_due'', dq_years_delinquent = r ''years_delinquent''\<rparr>"

definition business_owner_match :: "row \<Rightarrow> row \<Rightarrow> rat \<Rightarrow> business_owner_match" where
  "business_owner_match tax_row lic_row similarity =
     \<lparr>bm_tax_owner = tax_row ''owner_name_1'',
      bm_business_name = lic_row ''business_name'',
      bm_similarity = py_round 3 similarity,
      bm_tax_address = tax_row ''address'',
      bm_business_address = lic_row ''address'',
      bm_total_due = tax_row ''total_due'',
      bm_years_delinquent = tax_row ''years_delinquent'',
      bm_pattern_type = ''HIGH_VALUE_TAX_BUSINESS_MATCH''\<rparr>"

text \<open>
  The cross-reference of a list of tax rows against every licence row: names shorter
  than three characters are skipped on either side, the threshold is 0.80.
\<close>

definition cross_reference ::
  "(string \<Rightarrow> string \<Rightarrow> rat) \<Rightarrow> row list \<Rightarrow> row list \<Rightarrow> business_owner_match list" where
  "cross_reference ratio tax_rows lic_rows =
     concat (map (\<lambda>tax_row.
        let owner = the_text (tax_row ''owner_normalized'')
        in if length owner < 3 then []
           else concat (map (\<lambda>lic_row.
                  let business = the_text (lic_row ''business_name_normalized'')
                  in if length business < 3 then []
                     else if 80 / 100 \<le> ratio owner business
                     then [business_owner_match tax_row lic_row (ratio owner business)]
                     else [])
                lic_rows))
      tax_rows)"

text \<open>The rows the source cross-references: \<^verbatim>\<open>high_value_delinquent.head(100)\<close>.\<close>

definition cross_referenced :: "cross_analyzer \<Rightarrow> row list" where
  "cross_referenced a = take 100 (high_value_delinquent a)"

definition matches_with_businesses ::
  "(string \<Rightarrow> string \<Rightarrow> rat) \<Rightarrow> cross_analyzer \<Rightarrow> business_owner_match list" where
  "matches_with_businesses ratio a =
     sort_desc (\<lambda>m. num_or_zero (bm_total_due m))
       (cross_reference ratio (cross_referenced a) (rows (licenses a)))"

definition supplier_tax_match ::
  "cross_analyzer \<Rightarrow> string \<Rightarrow> row \<Rightarrow> rat \<Rightarrow> supplier_tax_match" where
  "supplier_tax_match a supplier tax_row similarity =
     (let supplier_contracts =
            filter (\<lambda>r. r ''supplier_normalized'' = Str supplier) (rows (contracts a))
      in \<lparr>sm_supplier = supplier,
          sm_tax_owner = tax_row ''owner_name_1'',
          sm_similarity = py_round 3 similarity,
          sm_contract_count = length supplier_contracts,
          sm_contract_value = sum_col (map (\<lambda>r. r ''contract_value_numeric'') supplier_contracts),
          sm_total_tax_due = tax_row ''total_due'',
          sm_years_delinquent = tax_row ''years_delinquent'',
          sm_pattern_type = ''SUPPLIER_TAX_DELINQUENT''\<rparr>)"

definition supplier_matches ::
  "(string \<Rightarrow> string \<Rightarrow> rat) \<Rightarrow> cross_analyzer \<Rightarrow> supplier_tax_match list" where
  "supplier_matches ratio a =
     sort_desc sm_contract_value
       (concat (map (\<lambda>supplier.
          if length supplier < 3 then []
          else concat (map (\<lambda>tax_row.
                 let owner = the_text (tax_row ''owner_normalized'')
                 in if length owner < 3 then []
                    else if 85 / 100 \<le> ratio supplier owner
                    then [supplier_tax_match a supplier tax_row (ratio supplier owner)]
                    else [])
               (rows (taxes a))))
        (unique_names (contracts a) ''supplier_normalized'')))"

definition analyze_tax_delinquent_overlaps ::
  "(string \<Rightarrow> string \<Rightarrow> rat) option \<Rightarrow> cross_analyzer \<Rightarrow> string + tax_report" where
  "analyze_tax_delinquent_overlaps lev a =
     (case lev of
        None \<Rightarrow> Inl ''python-Levenshtein not installed''
      | Some ratio \<Rightarrow>
          Inr \<lparr>high_value_delinquencies = map delinquency (take 20 (high_value_delinquent a)),
               long_term_delinquencies = map delinquency (take 20 (long_term a)),
               business_owner_matches = take 30 (matches_with_businesses ratio a),
               supplier_tax_matches = take 30 (supplier_matches ratio a),
               tax_summary =
                 \<lparr>total_delinquent_properties = length (rows (taxes a)),
                  total_tax_due = sum_col (column (taxes a) ''total_due''),
                  high_value_count = length (high_value_delinquent a),
                  long_term_count = length (long_term a),
                  business_matches_found = length (matches_with_businesses ratio a),
                  supplier_matches_found = length (supplier_matches ratio a)\<rparr>\<rparr>)"

text \<open>
  The cross-reference as the specification words it: the high-value rows in the order
  of the table, the first hundred of them.
\<close>

definition cross_referenced_spec :: "cross_analyzer \<Rightarrow> row list" where
  "cross_referenced_spec a =
     take 100 (filter (\<lambda>r. cell_ge (r ''total_due'') 5000) (rows (taxes a)))"

definition matches_with_businesses_spec ::
  "(string \<Rightarrow> string \<Rightarrow> rat) \<Rightarrow> cross_analyzer \<Rightarrow> business_owner_match list" where
  "matches_with_businesses_spec ratio a =
     sort_desc (\<lambda>m. num_or_zero (bm_total_due m))
       (cross_reference ratio (cross_referenced_spec a) (rows (licenses a)))"

section \<open>Example tables\<close>

text \<open>
  Five licences, four of them at one address written in four ways that differ in case
  and spacing only; the dates are timestamps already.
\<close>

definition example_licenses :: frame where
  "example_licenses =
     \<lparr>columns = [''license_id'', ''business_name'', ''dba_name'', ''address'', ''city'',
                 ''state'', ''zip_code'', ''issue_date'', ''license_type'', ''owner_name''],
      rows = [row_of [(''license_id'', Str ''L1''), (''business_name'', Str ''Acme LLC''),
                      (''dba_name'', Str ''Acme''), (''address'', Str ''100 Main St''),
                      (''zip_code'', Str ''06510''), (''issue_date'', Time 1700000000),
                      (''license_type'', Str ''Retail'')],
              row_of [(''license_id'', Str ''L2''), (''business_name'', Str ''Beta Inc''),
                      (''address'', Str ''100 MAIN ST ''),
                      (''zip_code'', Str ''06510''), (''issue_date'', Time 1700086400),
                      (''license_type'', Str ''Retail'')],
              row_of [(''license_id'', Str ''L3''), (''business_name'', Str ''Gamma Co''),
                      (''address'', Str ''100  main st''),
                      (''zip_code'', Str ''06510''), (''issue_date'', Time 1700172800),
                      (''license_type'', Str ''Food'')],
              row_of [(''license_id'', Str ''L4''), (''business_name'', Str ''Delta Ltd''),
                      (''address'', Str '' 100 main st''),
                      (''zip_code'', Str ''06510''), (''issue_date'', Time 1700259200),
                      (''license_type'', Str ''Food'')],
              row_of [(''license_id'', Str ''L5''), (''business_name'', Str ''Omega LP''),
                      (''address'', Str ''7 Elm Rd''),
                      (''zip_code'', Str ''06511''), (''issue_date'', Time 1700345600),
                      (''license_type'', Str ''Retail'')]]\<rparr>"

text \<open>
  One licence and one delinquent property whose addresses normalise to the same
  string, and one contract.
\<close>

definition example_cross_raw :: cross_analyzer where
  "example_cross_raw =
    \<lparr>licenses =
       \<lparr>columns = [''business_name'', ''dba_name'', ''address'', ''geo_location''],
        rows = [row_of [(''business_name'', Str ''Acme Holdings LLC''),
                        (''address'', Str ''100 Main Street'')]]\<rparr>,
     contracts =
       \<lparr>columns = [''agency'', ''contract_number'', ''contract_value'', ''supplier'',
                   ''procurement_type'', ''description'', ''solicitation_type'',
                   ''effective_from'', ''effective_to'', ''contract_value_numeric''],
        rows = [row_of [(''agency'', Str ''Parks''), (''contract_number'', Str ''C-1''),
                        (''contract_value'', Str ''$12,345.67''),
                        (''supplier'', Str ''Acme Holdings Inc''),
                        (''procurement_type'', Str ''Sole Source''),
                        (''effective_from'', Time 1700000000),
                        (''effective_to'', Time 1701000000),
                        (''contract_value_numeric'', Num (1234567 / 100))]]\<rparr>,
     taxes =
       \<lparr>columns = [''property_code'', ''owner_name_1'', ''owner_name_2'', ''address'',
                   ''total_due'', ''years_delinquent'', ''geo_location''],
        rows = [row_of [(''property_code'', Str ''P-1''), (''owner_name_1'', Str ''Acme Holdings''),
                        (''address'', Str ''100 MAIN ST''), (''total_due'', Num (12401 / 2)),
                        (''years_delinquent'', Intg 4)]]\<rparr>\<rparr>"


text \<open>
  A licence for Acme Holdings and 101 high-value tax records: the first, owned by Acme
  Holdings, owes 5000; the hundred after it have no owner name and owe 9000 each.
\<close>

definition example_many_taxes :: cross_analyzer where
  "example_many_taxes =
     cross_init
       \<lparr>columns = [''business_name'', ''dba_name'', ''address'', ''geo_location''],
        rows = [row_of [(''business_name'', Str ''Acme Holdings''),
                        (''address'', Str ''100 Main Street'')]]\<rparr>
       \<lparr>columns = [''agency'', ''contract_number'', ''contract_value'', ''supplier'',
                   ''procurement_type'', ''description'', ''solicitation_type'',
                   ''effective_from'', ''effective_to'', ''contract_value_numeric''],
        rows = []\<rparr>
       \<lparr>columns = [''property_code'', ''owner_name_1'', ''owner_name_2'', ''address'',
                   ''total_due'', ''years_delinquent'', ''geo_location''],
        rows = row_of [(''property_code'', Str ''P-0''), (''owner_name_1'', Str ''Acme Holdings''),
                       (''address'', Str ''9 Oak Ave''), (''total_due'', Num 5000),
                       (''years_delinquent'', Intg 1)]
               # replicate 100 (row_of [(''property_code'', Str ''P''),
                                       (''total_due'', Num 9000),
                                       (''years_delinquent'', Intg 2)])\<rparr>"


text \<open>Two licences: one address written with the long street word, one missing.\<close>

definition example_addresses :: frame where
  "example_addresses =
     \<lparr>columns = [''license_id'', ''business_name'', ''address''],
      rows = [row_of [(''license_id'', Str ''L1''), (''business_name'', Str ''Acme LLC''),
                      (''address'', Str ''100 Main Street'')],
              row_of [(''license_id'', Str ''L2''), (''business_name'', Str ''Beta Inc'')]]\<rparr>"

section \<open>The analyzers as objects: tables in a store\<close>

text \<open>
  A DataFrame is an object, and \<^verbatim>\<open>df[c] = values\<close> changes it in place for every name
  bound to it. To say that a method leaves the analyzer's tables alone, tables live in
  a store at addresses, and the analyzer holds addresses. The store operations are the
  ones the sources use on tables: \<^verbatim>\<open>df.copy()\<close>, \<^verbatim>\<open>df[mask]\<close> and \<^verbatim>\<open>df.sort_values(...)\<close>
  each make a new object, \<^verbatim>\<open>df[c] = values\<close> writes into the object \<^verbatim>\<open>df\<close> names. Tables
  that a method builds from nothing (the result of \<^verbatim>\<open>groupby().agg()\<close>, a list of
  findings) are values of the method: no name outside the method is bound to them.
\<close>

record store =
  heap :: "nat \<Rightarrow> frame option"
  next_addr :: nat

definition load :: "nat \<Rightarrow> store \<Rightarrow> frame" where
  "load a s = (case heap s a of Some f \<Rightarrow> f | None \<Rightarrow> \<lparr>columns = [], rows = []\<rparr>)"

definition alloc :: "frame \<Rightarrow> store \<Rightarrow> nat \<times> store" where
  "alloc f s = (next_addr s, s\<lparr>heap := (heap s)(next_addr s \<mapsto> f), next_addr := Suc (next_addr s)\<rparr>)"

definition df_copy :: "nat \<Rightarrow> store \<Rightarrow> nat \<times> store" where
  "df_copy a s = alloc (load a s) s"

definition df_select :: "(row \<Rightarrow> bool) \<Rightarrow> nat \<Rightarrow> store \<Rightarrow> nat \<times> store" where
  "df_select p a s = alloc (select_rows p (load a s)) s"

definition df_sort_desc :: "(row \<Rightarrow> rat) \<Rightarrow> nat \<Rightarrow> store \<Rightarrow> nat \<times> store" where
  "df_sort_desc k a s = alloc ((load a s)\<lparr>rows := sort_desc k (rows (load a s))\<rparr>) s"

definition df_sort_asc :: "(row \<Rightarrow> int) \<Rightarrow> nat \<Rightarrow> store \<Rightarrow> nat \<times> store" where
  "df_sort_asc k a s = alloc ((load a s)\<lparr>rows := sort_key k (rows (load a s))\<rparr>) s"

definition df_assign :: "nat \<Rightarrow> string \<Rightarrow> (row \<Rightarrow> cell) \<Rightarrow> store \<Rightarrow> store" where
  "df_assign a c f s = s\<lparr>heap := (heap s)(a \<mapsto> set_column c f (load a s))\<rparr>"

definition df_update :: "nat \<Rightarrow> (frame \<Rightarrow> frame) \<Rightarrow> store \<Rightarrow> store" where
  "df_update a g s = s\<lparr>heap := (heap s)(a \<mapsto> g (load a s))\<rparr>"

subsection \<open>LicenseAnalyzer\<close>

record license_analyzer =
  data :: nat

text \<open>\<^verbatim>\<open>__init__\<close>: \<^verbatim>\<open>self.data = data.copy()\<close>, then \<^verbatim>\<open>_normalize_data\<close> writes into the copy.\<close>

definition license_init :: "(cell \<Rightarrow> cell) \<Rightarrow> nat \<Rightarrow> store \<Rightarrow> license_analyzer \<times> store" where
  "license_init to_datetime d s =
     (let (a, s1) = df_copy d s
      in (\<lparr>data = a\<rparr>, df_update a (normalize_data to_datetime) s1))"

definition st_analyze_address_density ::
  "license_analyzer \<Rightarrow> int \<Rightarrow> store \<Rightarrow> (py_error + density_finding list) \<times> store" where
  "st_analyze_address_density self threshold s =
     (analyze_address_density (load (data self) s) threshold, s)"

definition st_analyze_name_similarity ::
  "(string \<Rightarrow> string \<Rightarrow> rat) option \<Rightarrow> license_analyzer \<Rightarrow> rat \<Rightarrow> store
     \<Rightarrow> (py_error + name_cluster list) \<times> store" where
  "st_analyze_name_similarity lev self threshold s =
     (analyze_name_similarity lev (load (data self) s) threshold, s)"

text \<open>
  analyze_dba_patterns: \<^verbatim>\<open>dba_data = self.data[self.data['dba_name'].notna()].copy()\<close>;
  everything after it reads \<^verbatim>\<open>dba_data\<close> and builds new tables. What it builds is the
  parameter \<open>report\<close>; \<open>None\<close> is the empty table returned early.
\<close>

definition st_analyze_dba_patterns ::
  "(frame \<Rightarrow> 'r) \<Rightarrow> license_analyzer \<Rightarrow> store \<Rightarrow> 'r option \<times> store" where
  "st_analyze_dba_patterns report self s =
     (if \<not> has_column (load (data self) s) ''dba_name'' then (None, s)
      else (let (selected, s1) = df_select (\<lambda>r. notna (r ''dba_name'')) (data self) s;
                (dba_data, s2) = df_copy selected s1
            in if rows (load dba_data s2) = [] then (None, s2)
               else (Some (report (load dba_data s2)), s2)))"

text \<open>
  analyze_temporal_clustering: \<^verbatim>\<open>dated_licenses = self.data[...].copy()\<close>, then
  \<^verbatim>\<open>dated_licenses = dated_licenses.sort_values('issue_date')\<close>; the clusters are read
  off the sorted table.
\<close>

definition st_analyze_temporal_clustering ::
  "license_analyzer \<Rightarrow> int \<Rightarrow> int \<Rightarrow> store \<Rightarrow> (py_error + temporal_cluster list) \<times> store" where
  "st_analyze_temporal_clustering self window_days threshold s =
     (if \<not> has_column (load (data self) s) ''issue_date'' then (Inr [], s)
      else (let (selected, s1) = df_select (\<lambda>r. notna (r ''issue_date'')) (data self) s;
                (copied, s2) = df_copy selected s1;
                (dated, s3) = df_sort_asc (\<lambda>r. the_time (r ''issue_date'')) copied s2
            in (temporal_clusters (load dated s3) window_days threshold, s3)))"

text \<open>
  analyze_geographic_concentration reads \<^verbatim>\<open>self.data\<close> through \<^verbatim>\<open>groupby().agg()\<close> and
  works on the table that returns; \<open>report\<close> is that computation.
\<close>

definition st_analyze_geographic_concentration ::
  "(frame \<Rightarrow> int \<Rightarrow> 'r) \<Rightarrow> license_analyzer \<Rightarrow> int \<Rightarrow> store \<Rightarrow> 'r option \<times> store" where
  "st_analyze_geographic_concentration report self zip_threshold s =
     (if \<not> has_column (load (data self) s) ''zip_code'' then (None, s)
      else (Some (report (load (data self) s) zip_threshold), s))"

subsection \<open>CrossDatasetAnalyzer\<close>

record cross_refs =
  licenses_ref :: nat
  contracts_ref :: nat
  taxes_ref :: nat

definition cross_state :: "cross_refs \<Rightarrow> store \<Rightarrow> cross_analyzer" where
  "cross_state x s =
     \<lparr>licenses = load (licenses_ref x) s, contracts = load (contracts_ref x) s,
      taxes = load (taxes_ref x) s\<rparr>"

text \<open>
  \<^verbatim>\<open>__init__\<close>: the three loaded tables become objects of the analyzer, and the two
  normalising methods write their columns into them.
\<close>

definition cross_new :: "frame \<Rightarrow> frame \<Rightarrow> frame \<Rightarrow> store \<Rightarrow> cross_refs \<times> store" where
  "cross_new l c t s =
     (let (la, s1) = alloc l s;
          (ca, s2) = alloc c s1;
          (ta, s3) = alloc t s2;
          s4 = df_assign la ''address_normalized''
                 (\<lambda>r. Str (normalize_addr (as_text (r ''address'')))) s3;
          s5 = df_assign ta ''address_normalized''
                 (\<lambda>r. Str (normalize_addr (as_text (r ''address'')))) s4;
          s6 = df_assign la ''business_name_normalized''
                 (\<lambda>r. Str (normalize_name (as_text (r ''business_name'')))) s5;
          s7 = df_assign la ''dba_normalized''
                 (\<lambda>r. Str (normalize_name (as_text (r ''dba_name'')))) s6;
          s8 = df_assign ca ''supplier_normalized''
                 (\<lambda>r. Str (normalize_name (as_text (r ''supplier'')))) s7;
          s9 = df_assign ta ''owner_normalized''
                 (\<lambda>r. Str (normalize_name (as_text (r ''owner_name_1'')))) s8
      in (\<lparr>licenses_ref = la, contracts_ref = ca, taxes_ref = ta\<rparr>, s9))"

definition st_analyze_address_clustering ::
  "(string set \<Rightarrow> string list) \<Rightarrow> cross_refs \<Rightarrow> int \<Rightarrow> store \<Rightarrow> address_report \<times> store" where
  "st_analyze_address_clustering set_iter x threshold s =
     (analyze_address_clustering set_iter (cross_state x s) threshold, s)"

definition st_cross_analyze_name_similarity ::
  "(string \<Rightarrow> string \<Rightarrow> rat) option \<Rightarrow> cross_refs \<Rightarrow> rat \<Rightarrow> store
     \<Rightarrow> (string + names_report) \<times> store" where
  "st_cross_analyze_name_similarity lev x threshold s =
     (cross_analyze_name_similarity lev (cross_state x s) threshold, s)"

text \<open>
  analyze_contract_timing: \<^verbatim>\<open>contracts = self.contracts.copy()\<close>, then three columns are
  written into the copy. \<^verbatim>\<open>duration_days\<close> is the whole days between the two dates,
  \<^verbatim>\<open>start_month\<close> the calendar month of the start (\<open>month_of\<close>, the calendar of pandas, is
  a parameter) and \<^verbatim>\<open>start_date\<close> its day; each is missing where a date is. The monthly
  findings are computed when two of the columns are there, the others after the
  third; \<open>report\<close> is that computation, given the copy at both moments.
\<close>

definition duration_days :: "row \<Rightarrow> cell" where
  "duration_days r =
     (case (r ''effective_to'', r ''effective_from'') of
        (Time t2, Time t1) \<Rightarrow> Intg ((t2 - t1) div 86400)
      | _ \<Rightarrow> Null)"

definition start_month :: "(int \<Rightarrow> int) \<Rightarrow> row \<Rightarrow> cell" where
  "start_month month_of r =
     (case r ''effective_from'' of Time t \<Rightarrow> Intg (month_of t) | _ \<Rightarrow> Null)"

definition start_date :: "row \<Rightarrow> cell" where
  "start_date r = (case r ''effective_from'' of Time t \<Rightarrow> Intg (day_of t) | _ \<Rightarrow> Null)"

definition st_analyze_contract_timing ::
  "(int \<Rightarrow> int) \<Rightarrow> (frame \<Rightarrow> frame \<Rightarrow> 'r) \<Rightarrow> cross_refs \<Rightarrow> store \<Rightarrow> 'r \<times> store" where
  "st_analyze_contract_timing month_of report x s =
     (let (c, s1) = df_copy (contracts_ref x) s;
          s2 = df_assign c ''duration_days'' duration_days s1;
          s3 = df_assign c ''start_month'' (start_month month_of) s2;
          s4 = df_assign c ''start_date'' start_date s3
      in (report (load c s3) (load c s4), s4))"

text \<open>
  analyze_procurement_types and analyze_agency_concentration: each starts with
  \<^verbatim>\<open>contracts = self.contracts.copy()\<close> and reads the copy; \<open>report\<close> is what it computes.
\<close>

definition st_analyze_procurement_types ::
  "(frame \<Rightarrow> 'r) \<Rightarrow> cross_refs \<Rightarrow> store \<Rightarrow> 'r \<times> store" where
  "st_analyze_procurement_types report x s =
     (let (c, s1) = df_copy (contracts_ref x) s in (report (load c s1), s1))"

definition st_analyze_agency_concentration ::
  "(frame \<Rightarrow> 'r) \<Rightarrow> cross_refs \<Rightarrow> store \<Rightarrow> 'r \<times> store" where
  "st_analyze_agency_concentration report x s =
     (let (c, s1) = df_copy (contracts_ref x) s in (report (load c s1), s1))"

text \<open>
  analyze_tax_delinquent_overlaps: the two cuts of the tax table are each selected,
  copied and sorted into new objects (nothing is done when the ratio package is
  missing); the report is computed from the rows of the three tables.
\<close>

definition st_analyze_tax_delinquent_overlaps ::
  "(string \<Rightarrow> string \<Rightarrow> rat) option \<Rightarrow> cross_refs \<Rightarrow> store \<Rightarrow> (string + tax_report) \<times> store" where
  "st_analyze_tax_delinquent_overlaps lev x s =
     (if lev = None then (analyze_tax_delinquent_overlaps lev (cross_state x s), s)
      else (let (h1, s1) = df_select (\<lambda>r. cell_ge (r ''total_due'') 5000) (taxes_ref x) s;
                (h2, s2) = df_copy h1 s1;
                (h3, s3) = df_sort_desc (\<lambda>r. num_or_zero (r ''total_due'')) h2 s2;
                (l1, s4) = df_select (\<lambda>r. cell_ge (r ''years_delinquent'') 3) (taxes_ref x) s3;
                (l2, s5) = df_copy l1 s4;
                (l3, s6) = df_sort_desc (\<lambda>r. num_or_zero (r ''years_delinquent'')) l2 s5
            in (analyze_tax_delinquent_overlaps lev (cross_state x s), s6)))"

text \<open>
  A call is read-only at a store when every object that existed before the call is
  unchanged after it, and the same call on the store it leaves returns the same
  result.
\<close>

definition unchanged :: "store \<Rightarrow> store \<Rightarrow> bool" where
  "unchanged s s' = (next_addr s \<le> next_addr s' \<and> (\<forall>a<next_addr s. heap s' a = heap s a))"

definition read_only :: "(store \<Rightarrow> 'r \<times> store) \<Rightarrow> store \<Rightarrow> bool" where
  "read_only m s = (unchanged s (snd (m s)) \<and> fst (m (snd (m s))) = fst (m s))"

text \<open>
  A store that holds the five example licences with a LicenseAnalyzer made from them,
  and the three example tables as the objects of a CrossDatasetAnalyzer.
\<close>

definition example_world :: "license_analyzer \<times> cross_refs \<times> store" where
  "example_world =
     (let (d, s0) = alloc example_licenses \<lparr>heap = Map.empty, next_addr = 0\<rparr>;
          (self, s1) = license_init id d s0;
          (x, s2) = cross_new (licenses example_cross_raw) (contracts example_cross_raw)
                      (taxes example_cross_raw) s1
      in (self, x, s2))"

section \<open>Auxiliary predicates for the proofs about text\<close>

text \<open>
  \<open>trimmed\<close>: no whitespace at either end. \<open>ws_ok\<close>: every whitespace character is a
  blank and no two whitespace characters are adjacent, which is the shape
  \<open>collapse_ws\<close> produces.
\<close>

definition trimmed :: "string \<Rightarrow> bool" where
  "trimmed s = (s = [] \<or> (\<not> isspace (hd s) \<and> \<not> isspace (last s)))"

fun ws_ok :: "string \<Rightarrow> bool" where
  "ws_ok [] = True"
| "ws_ok [c] = (isspace c \<longrightarrow> c = CHR '' '')"
| "ws_ok (c # d # cs) = ((isspace c \<longrightarrow> c = CHR '' '' \<and> \<not> isspace d) \<and> ws_ok (d # cs))"

text \<open>
  The tokens of a string: every maximal run of word characters is one token, every
  other character is a token of its own. \<open>word_token\<close> and \<open>sep_token\<close> are the two
  kinds, \<open>tokens_ok\<close> says that a list of tokens has only these and never two word
  tokens side by side, and \<open>apply_replacements\<close> is what the replacement loop does to
  one token.
\<close>

function tokens :: "string \<Rightarrow> string list" where
  "tokens [] = []"
| "tokens (c # cs) =
     (if isword c then (c # takeWhile isword cs) # tokens (dropWhile isword cs)
      else [c] # tokens cs)"
  by pat_completeness auto
termination
  by (relation "measure length") (auto simp: length_dropWhile_le less_Suc_eq_le)

definition word_token :: "string \<Rightarrow> bool" where
  "word_token t = (t \<noteq> [] \<and> list_all isword t)"

definition sep_token :: "string \<Rightarrow> bool" where
  "sep_token t = (length t = 1 \<and> \<not> isword (hd t))"

fun tokens_ok :: "string list \<Rightarrow> bool" where
  "tokens_ok [] = True"
| "tokens_ok [t] = (word_token t \<or> sep_token t)"
| "tokens_ok (t # u # ts) =
     ((sep_token t \<or> (word_token t \<and> sep_token u)) \<and> tokens_ok (u # ts))"

fun apply_replacements :: "(string \<times> string) list \<Rightarrow> string \<Rightarrow> string" where
  "apply_replacements [] t = t"
| "apply_replacements ((w, repl) # rest) t = apply_replacements rest (if t = w then repl else t)"

section \<open>Proofs: text primitives\<close>


subsection \<open>Characters\<close>

lemma to_upper_idem: "to_upper (to_upper c) = to_upper c"
  by (auto simp: to_upper_def Let_def)

lemma isspace_to_upper: "isspace (to_upper c) = isspace c"
  by (auto simp: to_upper_def isspace_def Let_def)

lemma upper_idem: "upper (upper s) = upper s"
  by (simp add: upper_def to_upper_idem)

subsection \<open>Trimming\<close>

lemma rstrip_prefix: "\<exists>t. s = rstrip s @ t \<and> (\<forall>c\<in>set t. isspace c)"
proof -
  have "rev s = takeWhile isspace (rev s) @ dropWhile isspace (rev s)" by simp
  then have "s = rev (dropWhile isspace (rev s)) @ rev (takeWhile isspace (rev s))"
    by (metis rev_append rev_rev_ident)
  moreover have "\<forall>c\<in>set (rev (takeWhile isspace (rev s))). isspace c"
    by (auto dest: set_takeWhileD)
  ultimately show ?thesis unfolding rstrip_def by blast
qed

lemma rstrip_last: "rstrip s \<noteq> [] \<Longrightarrow> \<not> isspace (last (rstrip s))"
  unfolding rstrip_def by (simp add: last_rev hd_dropWhile)

lemma rstrip_id: "s = [] \<or> \<not> isspace (last s) \<Longrightarrow> rstrip s = s"
  unfolding rstrip_def by (cases s rule: rev_cases) auto

lemma lstrip_id: "s = [] \<or> \<not> isspace (hd s) \<Longrightarrow> lstrip s = s"
  unfolding lstrip_def by (cases s) auto

lemma lstrip_hd: "lstrip s \<noteq> [] \<Longrightarrow> \<not> isspace (hd (lstrip s))"
  unfolding lstrip_def by (simp add: hd_dropWhile)

lemma rstrip_hd: "s \<noteq> [] \<Longrightarrow> \<not> isspace (hd s) \<Longrightarrow> rstrip s \<noteq> [] \<and> hd (rstrip s) = hd s"
proof -
  assume a: "s \<noteq> []" "\<not> isspace (hd s)"
  obtain t where t: "s = rstrip s @ t" "\<forall>c\<in>set t. isspace c" using rstrip_prefix by blast
  have "rstrip s \<noteq> []"
  proof
    assume "rstrip s = []"
    with t have "s = t" by simp
    with a t(2) show False by (cases s) auto
  qed
  moreover from this t(1) have "hd s = hd (rstrip s)" by (metis hd_append2)
  ultimately show ?thesis by simp
qed

lemma trimmed_strip: "trimmed (strip s)"
proof (cases "lstrip s = []")
  case True then show ?thesis by (simp add: trimmed_def strip_def rstrip_def)
next
  case False
  then have h: "\<not> isspace (hd (lstrip s))" by (rule lstrip_hd)
  from rstrip_hd[OF False h] rstrip_last[of "lstrip s"] h
  show ?thesis by (simp add: trimmed_def strip_def)
qed

lemma strip_id: "trimmed s \<Longrightarrow> strip s = s"
  unfolding trimmed_def strip_def by (auto simp: lstrip_id rstrip_id)

lemma length_rstrip: "length (rstrip s) \<le> length s"
  unfolding rstrip_def by (simp add: length_dropWhile_le order_trans[OF length_dropWhile_le])

lemma length_strip: "length (strip s) \<le> length s"
  unfolding strip_def lstrip_def
  by (meson length_dropWhile_le length_rstrip order_trans)

lemma set_rstrip: "set (rstrip s) \<subseteq> set s"
  unfolding rstrip_def by (auto dest: set_dropWhileD)

lemma set_strip: "set (strip s) \<subseteq> set s"
  unfolding strip_def lstrip_def using set_rstrip by (fastforce dest: set_dropWhileD)


subsection \<open>Whitespace runs\<close>

lemma collapse_ws_hd: "collapse_ws s \<noteq> [] \<Longrightarrow> s \<noteq> [] \<and> (isspace (hd (collapse_ws s)) = isspace (hd s))"
  by (cases s) (auto simp: isspace_def)

lemma ws_ok_Cons: "ws_ok (c # s) = ((isspace c \<longrightarrow> c = CHR '' '' \<and> (s = [] \<or> \<not> isspace (hd s))) \<and> ws_ok s)"
  by (cases s) auto

lemma ws_ok_collapse: "ws_ok (collapse_ws s)"
proof (induction s rule: collapse_ws.induct)
  case 1 show ?case by simp
next
  case (2 c cs)
  show ?case
  proof (cases "isspace c")
    case True
    let ?d = "dropWhile isspace cs"
    have "collapse_ws ?d = [] \<or> \<not> isspace (hd (collapse_ws ?d))"
      using collapse_ws_hd[of ?d] hd_dropWhile[of isspace cs] by auto
    with 2 True show ?thesis by (simp add: ws_ok_Cons)
  next
    case False
    with 2 show ?thesis by (simp add: ws_ok_Cons)
  qed
qed

lemma collapse_ws_id: "ws_ok s \<Longrightarrow> collapse_ws s = s"
proof (induction s rule: ws_ok.induct)
  case 1 show ?case by simp
next
  case (2 c) then show ?case by simp
next
  case (3 c d cs)
  then show ?case by (cases "isspace c") auto
qed

lemma ws_ok_append: "ws_ok (xs @ ys) \<Longrightarrow> ws_ok xs \<and> ws_ok ys"
proof (induction xs)
  case Nil then show ?case by simp
next
  case (Cons c xs)
  then show ?case by (cases xs) (auto simp: ws_ok_Cons)
qed

lemma ws_ok_strip: "ws_ok s \<Longrightarrow> ws_ok (strip s)"
proof -
  assume a: "ws_ok s"
  have "s = takeWhile isspace s @ lstrip s" by (simp add: lstrip_def)
  with a have l: "ws_ok (lstrip s)" by (metis ws_ok_append)
  obtain t where "lstrip s = rstrip (lstrip s) @ t" using rstrip_prefix by blast
  with l show ?thesis unfolding strip_def by (metis ws_ok_append)
qed

lemma length_collapse_ws: "length (collapse_ws s) \<le> length s"
proof (induction s rule: collapse_ws.induct)
  case 1 show ?case by simp
next
  case (2 c cs)
  have "length (dropWhile isspace cs) \<le> length cs" by (rule length_dropWhile_le)
  with 2 show ?case by (cases "isspace c") auto
qed

lemma set_collapse_ws: "set (collapse_ws s) \<subseteq> insert (CHR '' '') (set s)"
proof (induction s rule: collapse_ws.induct)
  case 1 show ?case by simp
next
  case (2 c cs)
  have "set (dropWhile isspace cs) \<subseteq> set cs" by (auto dest: set_dropWhileD)
  with 2 show ?case by (cases "isspace c") auto
qed

subsection \<open>One suffix pattern\<close>

lemma sub_suffix_no_match: "\<not> suffix_match w s \<Longrightarrow> sub_suffix w s = s"
  by (auto simp: suffix_match_def sub_suffix_def split: option.splits)

lemma suffix_cut_length: "suffix_cut w s = Some (front, rest) \<Longrightarrow> length front + length rest \<le> length s"
  by (auto simp: suffix_cut_def endswith_def split: if_splits)

lemma suffix_cut_set: "suffix_cut w s = Some (front, rest) \<Longrightarrow> set front \<union> set rest \<subseteq> set s"
proof -
  assume a: "suffix_cut w s = Some (front, rest)"
  then have f: "set front \<subseteq> set s"
    by (auto simp: suffix_cut_def split: if_splits dest: in_set_takeD)
  from a have "rest = [] \<or> (\<exists>k. drop k s = w @ rest)"
    by (auto simp: suffix_cut_def endswith_def split: if_splits)
  then have "set rest \<subseteq> set s"
  proof
    assume "rest = []" then show ?thesis by simp
  next
    assume "\<exists>k. drop k s = w @ rest"
    then obtain k where "drop k s = w @ rest" ..
    then have "set rest \<subseteq> set (drop k s)" by simp
    then show ?thesis by (meson in_set_dropD subset_iff)
  qed
  with f show ?thesis by simp
qed

lemma length_rstrip_less: "s \<noteq> [] \<Longrightarrow> isspace (last s) \<Longrightarrow> length (rstrip s) < length s"
proof -
  assume a: "s \<noteq> []" "isspace (last s)"
  then obtain c cs where r: "rev s = c # cs" "isspace c"
    by (metis last_rev list.sel(1) neq_Nil_conv rev_is_Nil_conv rev_rev_ident hd_rev)
  have "length (dropWhile isspace cs) \<le> length cs" by (rule length_dropWhile_le)
  with r have "length (dropWhile isspace (rev s)) < length (rev s)" by simp
  then show ?thesis by (simp add: rstrip_def)
qed

lemma sub_suffix_match_less: "suffix_match w s \<Longrightarrow> length (sub_suffix w s) < length s"
proof -
  assume m: "suffix_match w s"
  then obtain front rest where c: "suffix_cut w s = Some (front, rest)" "front \<noteq> []" "isspace (last front)"
    by (auto simp: suffix_match_def split: option.splits)
  from c have "sub_suffix w s = rstrip front @ rest" by (simp add: sub_suffix_def)
  moreover have "length (rstrip front) < length front" using c by (simp add: length_rstrip_less)
  moreover have "length front + length rest \<le> length s" using c(1) by (rule suffix_cut_length)
  ultimately show ?thesis by simp
qed

lemma length_sub_suffix: "length (sub_suffix w s) \<le> length s"
  using sub_suffix_match_less[of w s] sub_suffix_no_match[of w s] by (cases "suffix_match w s") auto

lemma set_sub_suffix: "set (sub_suffix w s) \<subseteq> set s"
proof (cases "suffix_match w s")
  case False then show ?thesis by (simp add: sub_suffix_no_match)
next
  case True
  then obtain front rest where c: "suffix_cut w s = Some (front, rest)" "front \<noteq> []" "isspace (last front)"
    by (auto simp: suffix_match_def split: option.splits)
  from c have "sub_suffix w s = rstrip front @ rest" by (simp add: sub_suffix_def)
  with suffix_cut_set[OF c(1)] set_rstrip[of front] show ?thesis by auto
qed

subsection \<open>The pass over the suffix list\<close>


lemma strip_suffixes_no_match: "\<forall>w\<in>set ws. \<not> suffix_match w s \<Longrightarrow> strip_suffixes ws s = s"
  by (induction ws) (auto simp: sub_suffix_no_match)

lemma length_strip_suffixes: "length (strip_suffixes ws s) \<le> length s"
proof (induction ws arbitrary: s)
  case Nil show ?case by simp
next
  case (Cons w ws)
  have "length (strip_suffixes ws (sub_suffix w s)) \<le> length (sub_suffix w s)" by (rule Cons.IH)
  also have "\<dots> \<le> length s" by (rule length_sub_suffix)
  finally show ?case by simp
qed

lemma strip_suffixes_match_less: "\<exists>w\<in>set ws. suffix_match w s \<Longrightarrow> length (strip_suffixes ws s) < length s"
proof (induction ws)
  case Nil then show ?case by simp
next
  case (Cons w ws)
  show ?case
  proof (cases "suffix_match w s")
    case True
    have "length (strip_suffixes ws (sub_suffix w s)) \<le> length (sub_suffix w s)" by (rule length_strip_suffixes)
    also have "\<dots> < length s" using True by (rule sub_suffix_match_less)
    finally show ?thesis by simp
  next
    case False
    with Cons show ?thesis by (simp add: sub_suffix_no_match)
  qed
qed

lemma set_strip_suffixes: "set (strip_suffixes ws s) \<subseteq> set s"
proof (induction ws arbitrary: s)
  case Nil show ?case by simp
next
  case (Cons w ws)
  from Cons.IH[of "sub_suffix w s"] set_sub_suffix[of w s] show ?case by auto
qed


section \<open>Proofs: name normalisation\<close>


lemma to_upper_blank: "to_upper (CHR '' '') = CHR '' ''"
  by (simp add: to_upper_def)

lemma upper_id: "\<forall>c\<in>set s. to_upper c = c \<Longrightarrow> upper s = s"
  by (simp add: upper_def map_idI)

lemma normalize_name_chars: "c \<in> set (normalize_name x) \<Longrightarrow> to_upper c = c"
proof (cases x)
  case None
  assume "c \<in> set (normalize_name x)"
  with None show ?thesis by (simp add: normalize_name_def)
next
  case (Some raw)
  assume "c \<in> set (normalize_name x)"
  with Some have "c \<in> set (strip (collapse_ws (strip_suffixes suffixes (strip (upper raw)))))"
    by (simp add: normalize_name_def)
  then have "c \<in> set (collapse_ws (strip_suffixes suffixes (strip (upper raw))))"
    using set_strip by blast
  then have "c = CHR '' '' \<or> c \<in> set (strip_suffixes suffixes (strip (upper raw)))"
    using set_collapse_ws by blast
  then have "c = CHR '' '' \<or> c \<in> set (upper raw)"
    using set_strip_suffixes set_strip by blast
  then show ?thesis
    by (auto simp: upper_def to_upper_idem to_upper_blank)
qed

lemma normalize_name_trimmed: "trimmed (normalize_name x)"
  by (cases x) (simp_all add: normalize_name_def trimmed_strip, simp add: trimmed_def)

lemma normalize_name_ws_ok: "ws_ok (normalize_name x)"
  by (cases x) (simp_all add: normalize_name_def ws_ok_strip ws_ok_collapse)

lemma normalize_name_again:
  "normalize_name (Some (normalize_name x)) =
     strip (collapse_ws (strip_suffixes suffixes (normalize_name x)))"
proof -
  have "upper (normalize_name x) = normalize_name x"
    by (rule upper_id) (simp add: normalize_name_chars)
  moreover have "strip (normalize_name x) = normalize_name x"
    by (rule strip_id) (rule normalize_name_trimmed)
  ultimately show ?thesis by (simp add: normalize_name_def)
qed

text \<open>
  Claim C4, as amended. Normalising a normalised name gives the same name exactly when
  the normalised name does not itself end in whitespace followed by one of the
  thirteen suffixes; when it does, the second normalisation strips again.
\<close>

theorem normalize_name_idempotent_iff:
  "normalize_name (Some (normalize_name x)) = normalize_name x
     \<longleftrightarrow> (\<forall>w\<in>set suffixes. \<not> suffix_match w (normalize_name x))"
proof
  assume eq: "normalize_name (Some (normalize_name x)) = normalize_name x"
  show "\<forall>w\<in>set suffixes. \<not> suffix_match w (normalize_name x)"
  proof (rule ccontr)
    assume "\<not> (\<forall>w\<in>set suffixes. \<not> suffix_match w (normalize_name x))"
    then have "\<exists>w\<in>set suffixes. suffix_match w (normalize_name x)" by blast
    then have "length (strip_suffixes suffixes (normalize_name x)) < length (normalize_name x)"
      by (rule strip_suffixes_match_less)
    moreover have "length (strip (collapse_ws (strip_suffixes suffixes (normalize_name x))))
        \<le> length (strip_suffixes suffixes (normalize_name x))"
      by (meson length_strip length_collapse_ws order_trans)
    ultimately have "length (normalize_name (Some (normalize_name x))) < length (normalize_name x)"
      by (simp add: normalize_name_again)
    with eq show False by simp
  qed
next
  assume "\<forall>w\<in>set suffixes. \<not> suffix_match w (normalize_name x)"
  then have "strip_suffixes suffixes (normalize_name x) = normalize_name x"
    by (rule strip_suffixes_no_match)
  then have "normalize_name (Some (normalize_name x)) = strip (collapse_ws (normalize_name x))"
    by (simp add: normalize_name_again)
  also have "\<dots> = strip (normalize_name x)"
    by (simp add: collapse_ws_id normalize_name_ws_ok)
  also have "\<dots> = normalize_name x"
    by (rule strip_id) (rule normalize_name_trimmed)
  finally show "normalize_name (Some (normalize_name x)) = normalize_name x" .
qed

text \<open>Claim C4, witness: \<^verbatim>\<open>Acme Supply Inc\<close>, whose normal form ends in no suffix.\<close>

theorem normalize_name_idempotent_iff_witness:
  "\<not> (\<exists>w\<in>set suffixes. suffix_match w (normalize_name (Some ''Acme Supply Inc'')))
   \<and> normalize_name (Some ''Acme Supply Inc'') = ''ACME SUPPLY''
   \<and> normalize_name (Some (normalize_name (Some ''Acme Supply Inc''))) = ''ACME SUPPLY''"
proof -
  have v: "normalize_name (Some ''Acme Supply Inc'') = ''ACME SUPPLY''" by code_simp
  have h: "\<forall>w\<in>set suffixes. \<not> suffix_match w (normalize_name (Some ''Acme Supply Inc''))"
    by code_simp
  from h normalize_name_idempotent_iff [of "Some ''Acme Supply Inc''"]
  have "normalize_name (Some (normalize_name (Some ''Acme Supply Inc'')))
          = normalize_name (Some ''Acme Supply Inc'')" by blast
  with v h show ?thesis by simp
qed

text \<open>
  Claim C4, counterexample. \<^verbatim>\<open>Acme LLC Co\<close> normalises to \<^verbatim>\<open>ACME LLC\<close> (when the
  pattern LLC has its turn the string ends in CO; CO is stripped later in the pass),
  and normalising \<^verbatim>\<open>ACME LLC\<close> gives \<^verbatim>\<open>ACME\<close>.
\<close>

theorem normalize_name_not_idempotent:
  "normalize_name (Some ''Acme LLC Co'') = ''ACME LLC''
   \<and> normalize_name (Some (normalize_name (Some ''Acme LLC Co''))) = ''ACME''"
  by code_simp




section \<open>Proofs: LicenseAnalyzer\<close>

subsection \<open>Greedy name clustering\<close>


lemma absorb_result:
  "\<exists>ex. absorb ratio t n rest (c, P) = (c @ ex, P \<union> set ex)
        \<and> set ex = {m \<in> set rest. m \<notin> P \<and> t \<le> ratio n m} \<and> distinct ex"
proof (induction rest arbitrary: c P)
  case Nil
  show ?case by simp
next
  case (Cons name2 rest)
  show ?case
  proof (cases "name2 \<notin> P \<and> t \<le> ratio n name2")
    case True
    from Cons.IH[of "c @ [name2]" "insert name2 P"]
    obtain ex where ex: "absorb ratio t n rest (c @ [name2], insert name2 P)
                           = ((c @ [name2]) @ ex, insert name2 P \<union> set ex)"
      "set ex = {m \<in> set rest. m \<notin> insert name2 P \<and> t \<le> ratio n m}" "distinct ex"
      by blast
    have "absorb ratio t n (name2 # rest) (c, P) = (c @ (name2 # ex), P \<union> set (name2 # ex))"
      using True ex(1) by simp
    moreover have "set (name2 # ex) = {m \<in> set (name2 # rest). m \<notin> P \<and> t \<le> ratio n m}"
      using True ex(2) by auto
    moreover have "distinct (name2 # ex)" using ex(2,3) by auto
    ultimately show ?thesis by blast
  next
    case False
    from Cons.IH[of c P]
    obtain ex where ex: "absorb ratio t n rest (c, P) = (c @ ex, P \<union> set ex)"
      "set ex = {m \<in> set rest. m \<notin> P \<and> t \<le> ratio n m}" "distinct ex"
      by blast
    have "absorb ratio t n (name2 # rest) (c, P) = (c @ ex, P \<union> set ex)"
      using False ex(1) by auto
    moreover have "set ex = {m \<in> set (name2 # rest). m \<notin> P \<and> t \<le> ratio n m}"
      using False ex(2) by auto
    ultimately show ?thesis using ex(3) by blast
  qed
qed

lemma cluster_names_invariant:
  "distinct names \<Longrightarrow>
     distinct (concat (cluster_names ratio t names P))
     \<and> set (concat (cluster_names ratio t names P)) \<subseteq> set names - P
     \<and> (\<forall>c\<in>set (cluster_names ratio t names P). 2 \<le> length c)"
proof (induction names arbitrary: P)
  case Nil
  show ?case by simp
next
  case (Cons name1 rest)
  then have d: "name1 \<notin> set rest" "distinct rest" by auto
  show ?case
  proof (cases "name1 \<in> P")
    case True
    with Cons.IH[OF d(2), of P] show ?thesis by auto
  next
    case False
    obtain ex where ex: "absorb ratio t name1 rest ([name1], P) = ([name1] @ ex, P \<union> set ex)"
      "set ex = {m \<in> set rest. m \<notin> P \<and> t \<le> ratio name1 m}" "distinct ex"
      using absorb_result[of ratio t name1 rest "[name1]" P] by blast
    show ?thesis
    proof (cases "ex = []")
      case True
      with False ex(1) have "cluster_names ratio t (name1 # rest) P = cluster_names ratio t rest P"
        by simp
      with Cons.IH[OF d(2), of P] show ?thesis by auto
    next
      case nonempty: False
      let ?P' = "insert name1 (P \<union> set ex)"
      have eq: "cluster_names ratio t (name1 # rest) P
                  = (name1 # ex) # cluster_names ratio t rest ?P'"
        using False ex(1) nonempty by simp
      note ih = Cons.IH[OF d(2), of ?P']
      have a: "distinct (name1 # ex)" using ex(2,3) d(1) by auto
      have b: "set (name1 # ex) \<inter> set (concat (cluster_names ratio t rest ?P')) = {}"
        using ih by auto
      have c: "set (name1 # ex) \<subseteq> set (name1 # rest) - P" using ex(2) False by auto
      have e: "2 \<le> length (name1 # ex)" using nonempty by (cases ex) auto
      from a b c e ih show ?thesis unfolding eq by auto
    qed
  qed
qed

lemma absorb_fresh:
  "distinct rest \<Longrightarrow> set rest \<inter> P = {} \<Longrightarrow>
     absorb ratio t n rest (c, P)
       = (c @ filter (\<lambda>m. t \<le> ratio n m) rest, P \<union> set (filter (\<lambda>m. t \<le> ratio n m) rest))"
proof (induction rest arbitrary: c P)
  case Nil
  show ?case by simp
next
  case (Cons name2 rest)
  from Cons.prems have fresh: "name2 \<notin> P" and d: "distinct rest"
    and r: "set rest \<inter> P = {}" "set rest \<inter> insert name2 P = {}" by auto
  show ?case
  proof (cases "t \<le> ratio n name2")
    case True
    with fresh Cons.IH[OF d r(2), of "c @ [name2]"] show ?thesis by simp
  next
    case False
    with Cons.IH[OF d r(1), of c] show ?thesis by simp
  qed
qed

lemma cluster_names_head:
  assumes "distinct (A # rest)" "B \<in> set rest" "t \<le> ratio A B"
  shows "\<exists>cs. cluster_names ratio t (A # rest) {}
                = (A # filter (\<lambda>m. t \<le> ratio A m) rest) # cs"
proof -
  let ?ex = "filter (\<lambda>m. t \<le> ratio A m) rest"
  have ex: "absorb ratio t A rest ([A], {}) = ([A] @ ?ex, {} \<union> set ?ex)"
    using assms(1) by (intro absorb_fresh) auto
  from assms(2,3) have "B \<in> set ?ex" by simp
  then have "length ?ex \<noteq> 0" by (metis empty_iff length_0_conv list.set(1))
  then have "1 < length ([A] @ ?ex)" by simp
  with ex have "cluster_names ratio t (A # rest) {}
      = (A # ?ex) # cluster_names ratio t rest (insert A ({} \<union> set ?ex))" by simp
  then show ?thesis by blast
qed

lemma distinct_unique: "distinct (unique xs)"
  by (simp add: unique_def)

lemma set_unique: "set (unique xs) = set xs"
  by (simp add: unique_def)

lemma nc_names_make_cluster: "nc_names (make_cluster df c) = c"
  by (simp add: make_cluster_def Let_def)

lemma nc_size_make_cluster: "nc_cluster_size (make_cluster df c) = length c"
  by (simp add: make_cluster_def Let_def)

lemma rescore_ok:
  assumes "\<forall>c\<in>set cs. 0 < nc_cluster_size c"
  shows "\<exists>scored. rescore cs = Inr scored \<and> map nc_names scored = map nc_names cs
           \<and> map nc_cluster_size scored = map nc_cluster_size cs"
proof (cases "cs = []")
  case True
  then show ?thesis by (simp add: rescore_def)
next
  case False
  then have "Max (set (map nc_cluster_size cs)) \<in> set (map nc_cluster_size cs)"
    by (intro Max_in) auto
  with assms have "Max (set (map nc_cluster_size cs)) \<noteq> 0" by auto
  with False show ?thesis by (simp add: rescore_def Let_def o_def)
qed

lemma mset_concat_map: "mset (concat (map f xs)) = (\<Sum>x\<in>#mset xs. mset (f x))"
  by (induction xs) auto

lemma distinct_concat_perm:
  assumes "mset xs = mset ys" "distinct (concat (map f xs))"
  shows "distinct (concat (map f ys))"
proof -
  have "mset (concat (map f xs)) = mset (concat (map f ys))"
    by (simp add: mset_concat_map assms(1))
  with assms(2) show ?thesis by (metis mset_eq_imp_distinct_iff)
qed

lemma mset_sort_desc: "mset (sort_desc k xs) = mset xs"
  by (simp add: sort_desc_def)

lemma set_sort_desc: "set (sort_desc k xs) = set xs"
  by (simp add: sort_desc_def)

text \<open>
  Claim C6. Whatever the table, the threshold and the ratio function (or its absence),
  analyze_name_similarity returns normally, every cluster it reports has at least two
  names, and no name occurs twice in the reported clusters, neither inside one nor
  across two. When the ratio package is present, \<open>A\<close> is the first name iterated and
  \<open>B\<close> and \<open>C\<close> come later and each reach the threshold against \<open>A\<close> (whatever the
  ratio of \<open>B\<close> to \<open>C\<close> is), one reported cluster is \<open>A\<close> followed by exactly the later
  names whose ratio to \<open>A\<close> reaches the threshold, in table order: it holds \<open>B\<close> and
  \<open>C\<close> and no name whose ratio to the seed \<open>A\<close> is below the threshold.
\<close>

theorem greedy_cluster:
  "\<exists>r. analyze_name_similarity lev df threshold = Inr r
       \<and> (\<forall>c\<in>set r. 2 \<le> length (nc_names c) \<and> nc_cluster_size c = length (nc_names c))
       \<and> distinct (concat (map nc_names r))
       \<and> (lev = Some ratio \<and> has_column df ''business_name_normalized''
            \<and> unique (texts (dropna (column df ''business_name_normalized''))) = A # rest
            \<and> B \<in> set rest \<and> threshold \<le> ratio A B
            \<and> C \<in> set rest \<and> threshold \<le> ratio A C
          \<longrightarrow> (\<exists>c\<in>set r. nc_names c = A # filter (\<lambda>m. threshold \<le> ratio A m) rest
                          \<and> B \<in> set (nc_names c) \<and> C \<in> set (nc_names c)
                          \<and> (\<forall>m\<in>set (nc_names c). m = A \<or> threshold \<le> ratio A m)))"
proof (cases "\<exists>f. lev = Some f \<and> has_column df ''business_name_normalized''")
  case False
  then have "analyze_name_similarity lev df threshold = Inr []"
    by (auto simp: analyze_name_similarity_def split: option.splits)
  with False show ?thesis by auto
next
  case True
  then obtain f where lev: "lev = Some f"
    and cols: "has_column df ''business_name_normalized''" by blast
  define names where "names = unique (texts (dropna (column df ''business_name_normalized'')))"
  define groups where "groups = cluster_names f threshold names {}"
  define clusters where "clusters = map (make_cluster df) groups"
  have dist: "distinct names" by (simp add: names_def distinct_unique)
  have inv: "distinct (concat groups)" "\<forall>c\<in>set groups. 2 \<le> length c"
    using cluster_names_invariant[OF dist, of f threshold "{}"] by (simp_all add: groups_def)
  have n: "map nc_names clusters = groups"
    by (simp add: clusters_def o_def nc_names_make_cluster)
  have s: "map nc_cluster_size clusters = map length groups"
    by (simp add: clusters_def o_def nc_size_make_cluster)
  have pos: "\<forall>c\<in>set clusters. 0 < nc_cluster_size c"
    using inv(2) by (fastforce simp: clusters_def nc_size_make_cluster)
  obtain scored where sc: "rescore clusters = Inr scored"
      "map nc_names scored = map nc_names clusters"
      "map nc_cluster_size scored = map nc_cluster_size clusters"
    using rescore_ok[OF pos] by blast
  define r where "r = sort_desc (\<lambda>c. of_nat (nc_cluster_size c)) scored"
  have res: "analyze_name_similarity lev df threshold = Inr r"
    using cols sc(1)
    by (simp add: analyze_name_similarity_def lev Let_def r_def clusters_def groups_def
          names_def)
  have names_scored: "map nc_names scored = groups" using sc(2) n by simp
  have sizes_scored: "map nc_cluster_size scored = map length groups" using sc(3) s by simp
  have len: "length scored = length groups" using names_scored by (metis length_map)
  have each: "\<forall>c\<in>set scored. 2 \<le> length (nc_names c) \<and> nc_cluster_size c = length (nc_names c)"
  proof
    fix c assume "c \<in> set scored"
    then obtain i where i: "i < length scored" "scored ! i = c" by (auto simp: in_set_conv_nth)
    have a: "nc_names c = groups ! i" using i names_scored by (metis nth_map)
    have "nc_cluster_size c = map nc_cluster_size scored ! i" using i by simp
    also have "\<dots> = map length groups ! i" using sizes_scored by simp
    also have "\<dots> = length (groups ! i)" using i len by simp
    finally have b: "nc_cluster_size c = length (groups ! i)" .
    have "groups ! i \<in> set groups" using i len by simp
    with a b inv(2) show "2 \<le> length (nc_names c) \<and> nc_cluster_size c = length (nc_names c)"
      by auto
  qed
  then have two: "\<forall>c\<in>set r. 2 \<le> length (nc_names c) \<and> nc_cluster_size c = length (nc_names c)"
    by (simp add: r_def set_sort_desc)
  have "distinct (concat (map nc_names scored))" using inv(1) names_scored by simp
  then have three: "distinct (concat (map nc_names r))"
    by (rule distinct_concat_perm[rotated]) (simp add: r_def mset_sort_desc)
  have seed: "\<exists>c\<in>set r. nc_names c = A # filter (\<lambda>m. threshold \<le> ratio A m) rest
                  \<and> B \<in> set (nc_names c) \<and> C \<in> set (nc_names c)
                  \<and> (\<forall>m\<in>set (nc_names c). m = A \<or> threshold \<le> ratio A m)"
    if h: "lev = Some ratio" "names = A # rest" "B \<in> set rest" "threshold \<le> ratio A B"
      "C \<in> set rest" "threshold \<le> ratio A C"
  proof -
    let ?ex = "filter (\<lambda>m. threshold \<le> ratio A m) rest"
    from h(1) lev have f: "f = ratio" by simp
    have "distinct (A # rest)" using dist h(2) by simp
    from cluster_names_head[of A rest B threshold ratio, OF this h(3,4)]
    obtain cs where hd: "groups = (A # ?ex) # cs" unfolding groups_def f h(2) by blast
    have ne: "scored \<noteq> []" using len hd by auto
    then have "hd scored \<in> set scored" by simp
    moreover have "nc_names (hd scored) = hd (map nc_names scored)"
      using ne by (simp add: hd_map)
    ultimately have "\<exists>c\<in>set scored. nc_names c = A # ?ex" using names_scored hd by auto
    then obtain c where c: "c \<in> set r" "nc_names c = A # ?ex"
      by (auto simp: r_def set_sort_desc)
    have "B \<in> set (A # ?ex)" "C \<in> set (A # ?ex)" using h(3-6) by simp_all
    moreover have "\<forall>m\<in>set (A # ?ex). m = A \<or> threshold \<le> ratio A m" by simp
    ultimately have "nc_names c = A # ?ex \<and> B \<in> set (nc_names c) \<and> C \<in> set (nc_names c)
                  \<and> (\<forall>m\<in>set (nc_names c). m = A \<or> threshold \<le> ratio A m)"
      unfolding c(2) by blast
    with c(1) show ?thesis by (rule bexI[rotated])
  qed
  from res two three seed show ?thesis unfolding names_def by blast
qed

text \<open>
  Claim C6, witness: four licences named abcd, abcdx, yabcd and abcdxz, the documented
  ratio and the default threshold 0.85. The second and the third name reach the
  threshold against the first; the ratio of the second to the third is 0.8, and the
  fourth reaches the threshold against the second (ratio 10/11) but not against the
  first (0.8). The cluster of the first name holds the first three names and not the
  fourth.
\<close>

theorem greedy_cluster_witness:
  "has_column (normalize_data id example_names) ''business_name_normalized''
   \<and> unique (texts (dropna (column (normalize_data id example_names) ''business_name_normalized'')))
       = ''ABCD'' # [''ABCDX'', ''YABCD'', ''ABCDXZ'']
   \<and> 85 / 100 \<le> indel_ratio ''ABCD'' ''ABCDX''
   \<and> 85 / 100 \<le> indel_ratio ''ABCD'' ''YABCD''
   \<and> indel_ratio ''ABCDX'' ''YABCD'' < 85 / 100
   \<and> indel_ratio ''ABCD'' ''ABCDXZ'' < 85 / 100
   \<and> 85 / 100 \<le> indel_ratio ''ABCDX'' ''ABCDXZ''
   \<and> (\<exists>r. analyze_name_similarity (Some indel_ratio) (normalize_data id example_names) (85 / 100) = Inr r
          \<and> (\<exists>c\<in>set r. nc_names c = [''ABCD'', ''ABCDX'', ''YABCD''])
          \<and> distinct (concat (map nc_names r)))"
proof -
  let ?df = "normalize_data id example_names"
  have h1: "has_column ?df ''business_name_normalized''"
    by code_simp
  have h2: "unique (texts (dropna (column ?df ''business_name_normalized'')))
       = ''ABCD'' # [''ABCDX'', ''YABCD'', ''ABCDXZ'']"
    by code_simp
  have h3: "''ABCDX'' \<in> set [''ABCDX'', ''YABCD'', ''ABCDXZ'']" by simp
  have h4: "85 / 100 \<le> indel_ratio ''ABCD'' ''ABCDX''" by code_simp
  have h5: "''YABCD'' \<in> set [''ABCDX'', ''YABCD'', ''ABCDXZ'']" by simp
  have h6: "85 / 100 \<le> indel_ratio ''ABCD'' ''YABCD''" by code_simp
  have h7: "indel_ratio ''ABCDX'' ''YABCD'' < 85 / 100" by code_simp
  have h8: "indel_ratio ''ABCD'' ''ABCDXZ'' < 85 / 100" by code_simp
  have h9: "85 / 100 \<le> indel_ratio ''ABCDX'' ''ABCDXZ''" by code_simp
  have ex: "filter (\<lambda>m. 85 / 100 \<le> indel_ratio ''ABCD'' m) [''ABCDX'', ''YABCD'', ''ABCDXZ'']
              = [''ABCDX'', ''YABCD'']"
    using h4 h6 h8 by simp
  from greedy_cluster [of "Some indel_ratio" ?df "85 / 100" indel_ratio "''ABCD''"
      "[''ABCDX'', ''YABCD'', ''ABCDXZ'']" "''ABCDX''" "''YABCD''"]
  obtain r where r: "analyze_name_similarity (Some indel_ratio) ?df (85 / 100) = Inr r"
    "distinct (concat (map nc_names r))"
    "\<exists>c\<in>set r. nc_names c
        = ''ABCD'' # filter (\<lambda>m. 85 / 100 \<le> indel_ratio ''ABCD'' m) [''ABCDX'', ''YABCD'', ''ABCDXZ'']"
    using h1 h2 h3 h4 h5 h6 by blast
  from r(3) have "\<exists>c\<in>set r. nc_names c = [''ABCD'', ''ABCDX'', ''YABCD'']"
    unfolding ex .
  with r(1,2) h1 h2 h4 h6 h7 h8 h9 show ?thesis by blast
qed

section \<open>Proofs: currency parsing\<close>



lemma isdigit_nine: "isdigit (CHR ''9'')" by (simp add: isdigit_def)

lemma foldl_nines:
  "foldl (\<lambda>a c. 10 * a + digit_value c) a (replicate n (CHR ''9'')) + 1 = (a + 1) * 10 ^ n"
proof (induction n arbitrary: a)
  case 0 show ?case by simp
next
  case (Suc n)
  have "foldl (\<lambda>a c. 10 * a + digit_value c) a (replicate (Suc n) (CHR ''9'')) + 1
        = foldl (\<lambda>a c. 10 * a + digit_value c) (10 * a + 9) (replicate n (CHR ''9'')) + 1"
    by (simp add: digit_value_def)
  also have "\<dots> = (10 * a + 9 + 1) * 10 ^ n" by (rule Suc.IH)
  also have "\<dots> = (a + 1) * 10 ^ Suc n" by (simp add: algebra_simps)
  finally show ?case .
qed

lemma digits_value_nines: "digits_value (replicate n (CHR ''9'')) = 10 ^ n - 1"
  using foldl_nines[of 0 n] by (simp add: digits_value_def)

lemma parse_decimal_nines:
  "0 < n \<Longrightarrow> parse_decimal (clean_currency (replicate n (CHR ''9''))) = Some (of_nat (10 ^ n - 1))"
proof -
  assume n: "0 < n"
  have c: "clean_currency (replicate n (CHR ''9'')) = replicate n (CHR ''9'')"
    by (simp add: clean_currency_def isdigit_nine)
  have t: "takeWhile isdigit (replicate n (CHR ''9'')) = replicate n (CHR ''9'')"
    by (simp add: isdigit_nine)
  have d: "dropWhile isdigit (replicate n (CHR ''9'')) = []"
    by (simp add: isdigit_nine)
  have h: "hd (replicate n (CHR ''9'')) = CHR ''9''" using n by (cases n) auto
  have ne: "replicate n (CHR ''9'') \<noteq> []" using n by simp
  have neg: "\<not> (replicate n (CHR ''9'') \<noteq> [] \<and> hd (replicate n (CHR ''9'')) = CHR ''-'')"
    using h by simp
  show ?thesis
    unfolding c parse_decimal_def Let_def if_not_P[OF neg] t d
    using ne by (simp add: digits_value_nines)
qed

lemma limit_400: "double_limit \<le> of_nat (10 ^ 400 - 1)"
proof -
  have "(2::nat) ^ 1024 \<le> 10 ^ 400 - 1" by simp
  then have "(of_nat ((2::nat) ^ 1024) :: rat) \<le> of_nat (10 ^ 400 - 1)"
    by (rule of_nat_mono)
  moreover have "double_limit \<le> of_nat ((2::nat) ^ 1024)" by (simp add: double_limit_def)
  ultimately show ?thesis by (rule order_trans[rotated])
qed

text \<open>
  Claim C7, counterexample. A text of four hundred nines is a well-formed input; its
  value lies beyond the largest double and \<^verbatim>\<open>float()\<close> returns an infinity for it,
  not a finite float.
\<close>

theorem parse_currency_overflow:
  "parse_currency (Str (replicate 400 (CHR ''9''))) = Inr PosInf"
proof -
  have "parse_decimal (clean_currency (replicate 400 (CHR ''9''))) = Some (of_nat (10 ^ 400 - 1))"
    by (rule parse_decimal_nines) simp
  then show ?thesis
    using limit_400 by (simp add: parse_currency_def float_of_decimal_def)
qed

lemma digit_value_le: "isdigit c \<Longrightarrow> digit_value c \<le> 9"
  by (auto simp: isdigit_def digit_value_def)

lemma foldl_digits_bound:
  "\<forall>c\<in>set ds. isdigit c \<Longrightarrow>
     foldl (\<lambda>a c. 10 * a + digit_value c) a ds < (a + 1) * 10 ^ length ds"
proof (induction ds arbitrary: a)
  case Nil show ?case by simp
next
  case (Cons d ds)
  then have "digit_value d \<le> 9" by (simp add: digit_value_le)
  then have le: "10 * a + digit_value d + 1 \<le> (a + 1) * 10" by simp
  have "foldl (\<lambda>a c. 10 * a + digit_value c) a (d # ds)
        = foldl (\<lambda>a c. 10 * a + digit_value c) (10 * a + digit_value d) ds" by simp
  also have "\<dots> < (10 * a + digit_value d + 1) * 10 ^ length ds"
    using Cons by simp
  also have "\<dots> \<le> ((a + 1) * 10) * 10 ^ length ds"
    using le by (rule mult_le_mono1)
  also have "\<dots> = (a + 1) * 10 ^ length (d # ds)"
    by (simp only: length_Cons power_Suc mult.assoc)
  finally show ?case .
qed

lemma digits_value_bound: "\<forall>c\<in>set ds. isdigit c \<Longrightarrow> digits_value ds < 10 ^ length ds"
  using foldl_digits_bound[of ds 0] by (simp add: digits_value_def)

lemma parse_decimal_bound:
  assumes "parse_decimal t = Some q"
  shows "\<bar>q\<bar> < 10 ^ length t"
proof -
  define neg where "neg = (t \<noteq> [] \<and> hd t = CHR ''-'')"
  define body where "body = (if neg then tl t else t)"
  define ip where "ip = takeWhile isdigit body"
  define rest where "rest = dropWhile isdigit body"
  have body_len: "length body \<le> length t" by (simp add: body_def)
  have split: "body = ip @ rest" by (simp add: ip_def rest_def)
  have ipd: "\<forall>c\<in>set ip. isdigit c" by (auto simp: ip_def dest: set_takeWhileD)
  have ipb: "digits_value ip < 10 ^ length ip" using ipd by (rule digits_value_bound)
  show ?thesis
  proof (cases rest)
    case Nil
    with assms have "q = (if neg then - 1 else 1) * of_nat (digits_value ip)"
      by (auto simp: parse_decimal_def Let_def neg_def[symmetric] body_def[symmetric]
            ip_def[symmetric] rest_def[symmetric] split: if_splits)
    then have q: "\<bar>q\<bar> = of_nat (digits_value ip)"
      by (simp add: abs_mult)
    have "length ip \<le> length t" using split body_len Nil by simp
    then have "(10::nat) ^ length ip \<le> 10 ^ length t" by (simp add: power_increasing)
    with ipb have "digits_value ip < 10 ^ length t" by (rule less_le_trans)
    then have "(of_nat (digits_value ip) :: rat) < of_nat (10 ^ length t)"
      by (simp only: of_nat_less_iff)
    with q show ?thesis by simp
  next
    case (Cons c fp)
    with assms have ok: "list_all isdigit fp"
      and q0: "q = (if neg then - 1 else 1)
                   * (of_nat (digits_value ip) + of_nat (digits_value fp) / 10 ^ length fp)"
      by (auto simp: parse_decimal_def Let_def neg_def[symmetric] body_def[symmetric]
            ip_def[symmetric] rest_def[symmetric] split: if_splits)
    have "(0::rat) \<le> of_nat (digits_value ip) + of_nat (digits_value fp) / 10 ^ length fp"
      by simp
    then have q: "\<bar>q\<bar> = of_nat (digits_value ip) + of_nat (digits_value fp) / 10 ^ length fp"
      unfolding q0 by (simp only: abs_mult abs_of_nonneg) simp
    have "digits_value fp < 10 ^ length fp"
      using ok by (intro digits_value_bound) (simp add: list_all_iff)
    then have "(of_nat (digits_value fp) :: rat) < of_nat (10 ^ length fp)"
      by (simp only: of_nat_less_iff)
    then have frac: "(of_nat (digits_value fp) :: rat) / 10 ^ length fp < 1" by simp
    have "digits_value ip + 1 \<le> 10 ^ length ip" using ipb by simp
    also have "\<dots> \<le> 10 ^ length t"
    proof -
      have "length ip \<le> length t" using split body_len by simp
      then show ?thesis by (simp add: power_increasing)
    qed
    finally have "(of_nat (digits_value ip + 1) :: rat) \<le> of_nat (10 ^ length t)"
      by (simp only: of_nat_le_iff)
    then have "(of_nat (digits_value ip) :: rat) + 1 \<le> 10 ^ length t" by simp
    with frac q show ?thesis by linarith
  qed
qed

lemma small_below_limit: "n \<le> 308 \<Longrightarrow> (10::rat) ^ n \<le> double_limit"
proof -
  assume "n \<le> 308"
  then have "(10::rat) ^ n \<le> 10 ^ 308" by (rule power_increasing) simp
  also have "\<dots> \<le> 2 ^ 1024 - 2 ^ 970" by simp
  finally show ?thesis by (simp only: double_limit_def)
qed

text \<open>
  Claim C7, as amended. On a missing value, a float or a text the function never
  raises; a missing value gives 0.0, a float is returned as it is, an integer inside
  the double range is cast, a text whose cleaned form is not a decimal numeral gives
  0.0 and any other text gives the value of its cleaned form. The result is finite
  when that value is inside the double range, which is the case whenever at most 308
  characters survive the cleaning.
\<close>

theorem parse_currency_total:
  "parse_currency Null = Inr (Fin 0)
   \<and> parse_currency (Num x) = Inr (Fin x)
   \<and> (\<bar>of_int n\<bar> < double_limit \<longrightarrow> parse_currency (Intg n) = Inr (Fin (of_int n)))
   \<and> (\<exists>f. parse_currency (Str s) = Inr f)
   \<and> (parse_decimal (clean_currency s) = None \<longrightarrow> parse_currency (Str s) = Inr (Fin 0))
   \<and> (\<forall>q. parse_decimal (clean_currency s) = Some q \<and> \<bar>q\<bar> < double_limit
          \<longrightarrow> parse_currency (Str s) = Inr (Fin q))
   \<and> (length (clean_currency s) \<le> 308 \<longrightarrow> (\<exists>q. parse_currency (Str s) = Inr (Fin q)))"
proof -
  have a: "parse_currency Null = Inr (Fin 0)" "parse_currency (Num x) = Inr (Fin x)"
    by (simp_all add: parse_currency_def)
  have b: "\<bar>of_int n\<bar> < double_limit \<longrightarrow> parse_currency (Intg n) = Inr (Fin (of_int n))"
    by (simp add: parse_currency_def)
  have c: "\<exists>f. parse_currency (Str s) = Inr f"
    by (simp add: parse_currency_def split: option.splits)
  have d: "parse_decimal (clean_currency s) = None \<longrightarrow> parse_currency (Str s) = Inr (Fin 0)"
    by (simp add: parse_currency_def)
  have e: "\<forall>q. parse_decimal (clean_currency s) = Some q \<and> \<bar>q\<bar> < double_limit
          \<longrightarrow> parse_currency (Str s) = Inr (Fin q)"
    by (auto simp: parse_currency_def float_of_decimal_def)
  have f: "length (clean_currency s) \<le> 308 \<longrightarrow> (\<exists>q. parse_currency (Str s) = Inr (Fin q))"
  proof
    assume len: "length (clean_currency s) \<le> 308"
    show "\<exists>q. parse_currency (Str s) = Inr (Fin q)"
    proof (cases "parse_decimal (clean_currency s)")
      case None
      then show ?thesis by (simp add: parse_currency_def)
    next
      case (Some q)
      then have "\<bar>q\<bar> < 10 ^ length (clean_currency s)" by (rule parse_decimal_bound)
      also have "\<dots> \<le> double_limit" using len by (rule small_below_limit)
      finally have "\<bar>q\<bar> < double_limit" .
      with Some e show ?thesis by blast
    qed
  qed
  from a b c d e f show ?thesis by blast
qed

text \<open>
  Claim C7, witness: the two texts of the specification's scenario, \<^verbatim>\<open>N/A\<close> and
  \<^verbatim>\<open>$12,345.67\<close>, and the integer 250.
\<close>

theorem parse_currency_total_witness:
  "parse_decimal (clean_currency ''N/A'') = None
   \<and> parse_currency (Str ''N/A'') = Inr (Fin 0)
   \<and> parse_decimal (clean_currency ''$12,345.67'') = Some (1234567 / 100)
   \<and> \<bar>1234567 / 100 :: rat\<bar> < double_limit
   \<and> length (clean_currency ''$12,345.67'') \<le> 308
   \<and> parse_currency (Str ''$12,345.67'') = Inr (Fin (1234567 / 100))
   \<and> \<bar>of_int 250 :: rat\<bar> < double_limit
   \<and> parse_currency (Intg 250) = Inr (Fin 250)"
proof -
  have h1: "parse_decimal (clean_currency ''N/A'') = None" by code_simp
  have c: "clean_currency ''$12,345.67'' = ''12345.67''" by code_simp
  have h2: "parse_decimal (clean_currency ''$12,345.67'') = Some (1234567 / 100)"
    unfolding c parse_decimal_def Let_def
    by (simp add: isdigit_def digits_value_def digit_value_def)
  have h3: "\<bar>1234567 / 100 :: rat\<bar> < double_limit" by (simp add: double_limit_def)
  have h4: "length (clean_currency ''$12,345.67'') \<le> 308" unfolding c by simp
  have h5: "\<bar>of_int 250 :: rat\<bar> < double_limit" by (simp add: double_limit_def)
  from parse_currency_total [of 0 250 "''N/A''"] h1
  have r1: "parse_currency (Str ''N/A'') = Inr (Fin 0)" by blast
  from parse_currency_total [of 0 250 "''$12,345.67''"] h2 h3 h5
  have r2: "parse_currency (Str ''$12,345.67'') = Inr (Fin (1234567 / 100))"
    and r3: "parse_currency (Intg 250) = Inr (Fin (of_int 250))" by blast+
  from h1 h2 h3 h4 h5 r1 r2 r3 show ?thesis by simp
qed

section \<open>Proofs: risk scores\<close>




















section \<open>Proofs: a table without the optional columns\<close>

text \<open>
  Claim C2, the failing input. The table has the three required columns and none of
  the optional ones. analyze_temporal_clustering finds no \<^verbatim>\<open>issue_date\<close> column and
  returns the empty result, as claimed. analyze_address_density raises KeyError: the
  dictionary given to \<^verbatim>\<open>agg\<close> names \<^verbatim>\<open>dba_name\<close>, \<^verbatim>\<open>license_type\<close> and \<^verbatim>\<open>issue_date\<close> as
  keys, pandas rejects the missing ones before it calls any of the functions, and the
  tests for the column inside those functions are never reached.
\<close>

theorem density_raises_without_optional_columns:
  "analyze_address_density (normalize_data id example_required_only) 3
     = Inl (KeyError [''dba_name'', ''issue_date'', ''license_type''])
   \<and> analyze_temporal_clustering (normalize_data id example_required_only) 7 5 = Inr []"
  by code_simp

section \<open>Proofs: CrossDatasetAnalyzer\<close>

subsection \<open>Truncated result lists\<close>








subsection \<open>Tax-delinquency linkage\<close>

lemma sort_desc_split:
  "\<forall>x\<in>set (take n (sort_desc k xs)). \<forall>y\<in>set (drop n (sort_desc k xs)). k y \<le> k x"
proof -
  let ?s = "sort_desc k xs"
  have "sorted (map (\<lambda>x. - k x) ?s)" by (simp add: sort_desc_def)
  then have "sorted (map (\<lambda>x. - k x) (take n ?s) @ map (\<lambda>x. - k x) (drop n ?s))"
    by (metis append_take_drop_id map_append)
  then have "\<forall>u\<in>set (map (\<lambda>x. - k x) (take n ?s)). \<forall>v\<in>set (map (\<lambda>x. - k x) (drop n ?s)). u \<le> v"
    by (simp only: sorted_append) blast
  then show ?thesis by auto
qed

lemma cross_reference_set:
  "set (cross_reference ratio ts ls)
     = {business_owner_match t l (ratio (the_text (t ''owner_normalized''))
                                         (the_text (l ''business_name_normalized''))) | t l.
          t \<in> set ts \<and> l \<in> set ls
          \<and> 3 \<le> length (the_text (t ''owner_normalized''))
          \<and> 3 \<le> length (the_text (l ''business_name_normalized''))
          \<and> 80 / 100 \<le> ratio (the_text (t ''owner_normalized''))
                                (the_text (l ''business_name_normalized''))}"
  unfolding cross_reference_def Let_def by (auto simp: not_less split: if_splits)

text \<open>
  Claim C5, as amended. The high-value cut keeps the tax records with total_due of at
  least 5000 and the long-term cut those with years_delinquent of at least 3, each
  from the whole table. The cross-referenced rows are the first 100 of the high-value
  rows sorted by descending total_due: every one of them owes at least as much as
  every high-value row left out. They are compared with every licence row, names
  shorter than three characters skipped on either side, and a pair is a match exactly
  when its ratio is at least 0.80.
\<close>

theorem tax_linkage:
  "mset (high_value_delinquent a)
     = mset (filter (\<lambda>r. cell_ge (r ''total_due'') 5000) (rows (taxes a)))
   \<and> mset (long_term a)
     = mset (filter (\<lambda>r. cell_ge (r ''years_delinquent'') 3) (rows (taxes a)))
   \<and> cross_referenced a @ drop 100 (high_value_delinquent a) = high_value_delinquent a
   \<and> length (cross_referenced a) = min 100 (length (high_value_delinquent a))
   \<and> (\<forall>r\<in>set (cross_referenced a). \<forall>r'\<in>set (drop 100 (high_value_delinquent a)).
         num_or_zero (r' ''total_due'') \<le> num_or_zero (r ''total_due''))
   \<and> mset (matches_with_businesses ratio a)
     = mset (cross_reference ratio (cross_referenced a) (rows (licenses a)))
   \<and> set (cross_reference ratio (cross_referenced a) (rows (licenses a)))
     = {business_owner_match t l (ratio (the_text (t ''owner_normalized''))
                                         (the_text (l ''business_name_normalized''))) | t l.
          t \<in> set (cross_referenced a) \<and> l \<in> set (rows (licenses a))
          \<and> 3 \<le> length (the_text (t ''owner_normalized''))
          \<and> 3 \<le> length (the_text (l ''business_name_normalized''))
          \<and> 80 / 100 \<le> ratio (the_text (t ''owner_normalized''))
                                (the_text (l ''business_name_normalized''))}"
proof -
  have a: "mset (high_value_delinquent a)
     = mset (filter (\<lambda>r. cell_ge (r ''total_due'') 5000) (rows (taxes a)))"
    by (simp add: high_value_delinquent_def sort_desc_def)
  have b: "mset (long_term a)
     = mset (filter (\<lambda>r. cell_ge (r ''years_delinquent'') 3) (rows (taxes a)))"
    by (simp add: long_term_def sort_desc_def)
  have c: "cross_referenced a @ drop 100 (high_value_delinquent a) = high_value_delinquent a"
    by (simp add: cross_referenced_def)
  have d: "length (cross_referenced a) = min 100 (length (high_value_delinquent a))"
    by (simp add: cross_referenced_def min.commute)
  have e: "\<forall>r\<in>set (cross_referenced a). \<forall>r'\<in>set (drop 100 (high_value_delinquent a)).
         num_or_zero (r' ''total_due'') \<le> num_or_zero (r ''total_due'')"
    unfolding cross_referenced_def high_value_delinquent_def by (rule sort_desc_split)
  have f: "mset (matches_with_businesses ratio a)
     = mset (cross_reference ratio (cross_referenced a) (rows (licenses a)))"
    by (simp add: matches_with_businesses_def sort_desc_def)
  note g = cross_reference_set[of ratio "cross_referenced a" "rows (licenses a)"]
  from a b c d e f g show ?thesis by (intro conjI)
qed

text \<open>
  Claim C5, witness: the example with 101 high-value tax records. The hundred rows
  that owe 9000 are cross-referenced, the row that owes 5000 is left out.
\<close>

theorem tax_linkage_witness:
  "map (\<lambda>r. r ''total_due'') (cross_referenced example_many_taxes) = replicate 100 (Num 9000)
   \<and> map (\<lambda>r. r ''total_due'') (drop 100 (high_value_delinquent example_many_taxes)) = [Num 5000]
   \<and> num_or_zero (last (high_value_delinquent example_many_taxes) ''total_due'')
       \<le> num_or_zero (hd (cross_referenced example_many_taxes) ''total_due'')"
proof -
  let ?hv = "high_value_delinquent example_many_taxes"
  have e: "map (\<lambda>r. r ''total_due'') ?hv = replicate 100 (Num 9000) @ [Num 5000]"
    by code_simp
  have "length (map (\<lambda>r. r ''total_due'') ?hv) = 101" unfolding e by simp
  then have len: "length ?hv = 101" by simp
  have "map (\<lambda>r. r ''total_due'') (take 100 ?hv) = take 100 (replicate 100 (Num 9000) @ [Num 5000])"
    unfolding e[symmetric] by (simp add: take_map)
  then have a: "map (\<lambda>r. r ''total_due'') (cross_referenced example_many_taxes)
                  = replicate 100 (Num 9000)"
    by (simp add: cross_referenced_def)
  have "map (\<lambda>r. r ''total_due'') (drop 100 ?hv) = drop 100 (replicate 100 (Num 9000) @ [Num 5000])"
    unfolding e[symmetric] by (simp add: drop_map)
  then have b: "map (\<lambda>r. r ''total_due'') (drop 100 ?hv) = [Num 5000]" by simp
  have "cross_referenced example_many_taxes \<noteq> []" using len by (auto simp: cross_referenced_def)
  then have m1: "hd (cross_referenced example_many_taxes) \<in> set (cross_referenced example_many_taxes)"
    by simp
  have ne: "drop 100 ?hv \<noteq> []" using len by simp
  then have "last (drop 100 ?hv) \<in> set (drop 100 ?hv)" by (rule last_in_set)
  moreover have "last (drop 100 ?hv) = last ?hv" using len by simp
  ultimately have m2: "last ?hv \<in> set (drop 100 ?hv)" by (simp only:)
  from tax_linkage [of example_many_taxes indel_ratio] m1 m2
  have "num_or_zero (last ?hv ''total_due'')
          \<le> num_or_zero (hd (cross_referenced example_many_taxes) ''total_due'')" by blast
  with a b show ?thesis by blast
qed

text \<open>
  Claim C5, counterexample. Of 101 high-value records the first in table order, owned
  by Acme Holdings, owes the least. The source sorts by total_due before it takes a
  hundred rows, so that record is not cross-referenced and the licence of Acme
  Holdings is not matched; the first hundred rows in input order would include it
  and give the match.
\<close>

theorem cap_is_a_ranking:
  "map bm_tax_owner (matches_with_businesses indel_ratio example_many_taxes) = []
   \<and> map bm_tax_owner (matches_with_businesses_spec indel_ratio example_many_taxes)
       = [Str ''Acme Holdings'']"
  by code_simp

section \<open>Proofs: address normalisation\<close>

subsection \<open>Whole-word substitution, character by character\<close>

lemma isspace_not_word: "isspace c \<Longrightarrow> \<not> isword c"
  by (auto simp: isspace_def isword_def Let_def)

lemma word_at_split: "word_at w pw s \<Longrightarrow> s = w @ drop (length w) s"
  by (metis append_take_drop_id word_at_def)

lemma ws_ok_nospace_append: "\<forall>c\<in>set r. \<not> isspace c \<Longrightarrow> ws_ok (r @ x) = ws_ok x"
proof (induction r)
  case Nil show ?case by simp
next
  case (Cons c r)
  then show ?case by (simp add: ws_ok_Cons)
qed

lemma sub_word_shape:
  "w \<noteq> [] \<Longrightarrow> \<forall>c\<in>set w. \<not> isspace c \<Longrightarrow> r \<noteq> [] \<Longrightarrow> \<forall>c\<in>set r. \<not> isspace c \<Longrightarrow>
     (sub_word w r pw s = [] \<longleftrightarrow> s = [])
     \<and> (s \<noteq> [] \<longrightarrow> isspace (hd (sub_word w r pw s)) = isspace (hd s))
     \<and> (s \<noteq> [] \<longrightarrow> isspace (last (sub_word w r pw s)) = isspace (last s))
     \<and> (ws_ok s \<longrightarrow> ws_ok (sub_word w r pw s))"
proof (induction w r pw s rule: sub_word.induct)
  case (1 w repl pw)
  show ?case by simp
next
  case (2 w repl pw c cs)
  note w = "2.prems"(1,2) and r = "2.prems"(3,4)
  show ?case
  proof (cases "word_at w pw (c # cs)")
    case True
    define rest where "rest = drop (length w) (c # cs)"
    define out where "out = sub_word w repl (isword (last w)) rest"
    have split: "c # cs = w @ rest" unfolding rest_def using True by (rule word_at_split)
    have eq: "sub_word w repl pw (c # cs) = repl @ out"
      using True by (simp add: out_def rest_def)
    have ih: "(out = [] \<longleftrightarrow> rest = [])"
      "rest \<noteq> [] \<longrightarrow> isspace (last out) = isspace (last rest)"
      "ws_ok rest \<longrightarrow> ws_ok out"
      using "2.IH"(1)[OF True w r] by (simp_all add: out_def rest_def)
    have c: "c = hd w" using split w(1) by (metis hd_append2 list.sel(1))
    then have cw: "\<not> isspace c" using w by simp
    have hr: "\<not> isspace (hd repl)" "\<not> isspace (last repl)" using r by simp_all
    have lw: "\<not> isspace (last w)" using w by simp
    have g1: "(sub_word w repl pw (c # cs) = []) = (c # cs = [])" using eq r(1) by simp
    have g2: "isspace (hd (sub_word w repl pw (c # cs))) = isspace (hd (c # cs))"
      using eq r(1) hr(1) cw by simp
    have g3: "isspace (last (sub_word w repl pw (c # cs))) = isspace (last (c # cs))"
    proof (cases "rest = []")
      case True
      with ih(1) have "out = []" by simp
      with eq True split hr(2) lw show ?thesis by simp
    next
      case False
      with ih(1) have "out \<noteq> []" by simp
      with eq have "last (sub_word w repl pw (c # cs)) = last out" by simp
      moreover have "last (c # cs) = last rest" using split False by (metis last_appendR)
      ultimately show ?thesis using ih(2) False by simp
    qed
    have g4: "ws_ok (c # cs) \<longrightarrow> ws_ok (sub_word w repl pw (c # cs))"
    proof
      assume "ws_ok (c # cs)"
      then have "ws_ok rest" unfolding split by (metis ws_ok_append)
      with ih(3) have "ws_ok out" by simp
      then show "ws_ok (sub_word w repl pw (c # cs))"
        unfolding eq using r(2) by (simp add: ws_ok_nospace_append)
    qed
    from g1 g2 g3 g4 show ?thesis by simp
  next
    case False
    define out where "out = sub_word w repl (isword c) cs"
    have eq: "sub_word w repl pw (c # cs) = c # out" using False by (simp add: out_def)
    have ih: "(out = [] \<longleftrightarrow> cs = [])"
      "cs \<noteq> [] \<longrightarrow> isspace (hd out) = isspace (hd cs)"
      "cs \<noteq> [] \<longrightarrow> isspace (last out) = isspace (last cs)"
      "ws_ok cs \<longrightarrow> ws_ok out"
      using "2.IH"(2)[OF False w r] by (simp_all add: out_def)
    have g3: "isspace (last (sub_word w repl pw (c # cs))) = isspace (last (c # cs))"
      unfolding eq using ih(1,3) by (cases "cs = []") simp_all
    have g4: "ws_ok (c # cs) \<longrightarrow> ws_ok (sub_word w repl pw (c # cs))"
      unfolding eq using ih(1,2,4) by (auto simp: ws_ok_Cons)
    from g3 g4 show ?thesis unfolding eq by simp
  qed
qed

lemma sub_word_chars: "set (sub_word w r pw s) \<subseteq> set s \<union> set r"
proof (induction w r pw s rule: sub_word.induct)
  case (1 w repl pw)
  show ?case by simp
next
  case (2 w repl pw c cs)
  show ?case
  proof (cases "word_at w pw (c # cs)")
    case True
    have "set (drop (length w) (c # cs)) \<subseteq> set (c # cs)" by (rule set_drop_subset)
    with "2.IH"(1)[OF True] True show ?thesis by auto
  next
    case False
    with "2.IH"(2)[OF False] show ?thesis by auto
  qed
qed

subsection \<open>Whole-word substitution, token by token\<close>

lemma takeWhile_after_dropWhile: "takeWhile P (dropWhile P xs) = []"
  by (induction xs) auto

lemma dropWhile_twice: "dropWhile P (dropWhile P xs) = dropWhile P xs"
  by (induction xs) auto

lemma word_token_hd: "word_token w \<Longrightarrow> isword (hd w)"
  by (cases w) (auto simp: word_token_def)

lemma word_token_last: "word_token w \<Longrightarrow> isword (last w)"
  by (auto simp: word_token_def list_all_iff)

lemma no_match_at_separator: "word_token w \<Longrightarrow> \<not> isword c \<Longrightarrow> \<not> word_at w pw (c # cs)"
proof
  assume w: "word_token w" and c: "\<not> isword c" and m: "word_at w pw (c # cs)"
  from m have "c # cs = w @ drop (length w) (c # cs)" by (rule word_at_split)
  moreover from w have "w \<noteq> []" by (simp add: word_token_def)
  ultimately have "hd w = c" by (metis hd_append2 list.sel(1))
  with word_token_hd[OF w] c show False by simp
qed

lemma sub_word_separator:
  "word_token w \<Longrightarrow> \<not> isword c \<Longrightarrow> sub_word w r pw (c # cs) = c # sub_word w r False cs"
  using no_match_at_separator[of w c pw cs] by simp

lemma sub_word_inside:
  "word_token w \<Longrightarrow>
     sub_word w r True s = takeWhile isword s @ sub_word w r False (dropWhile isword s)"
proof (induction s)
  case Nil
  show ?case by simp
next
  case (Cons c cs)
  show ?case
  proof (cases "isword c")
    case True
    have "\<not> word_at w True (c # cs)"
      using word_token_hd[OF Cons.prems] by (simp add: word_at_def)
    then have "sub_word w r True (c # cs) = c # sub_word w r True cs" using True by simp
    with Cons True show ?thesis by simp
  next
    case False
    with Cons.prems show ?thesis by (simp add: sub_word_separator del: sub_word.simps)
  qed
qed

lemma word_at_run:
  assumes w: "word_token w" and c: "isword c"
  shows "word_at w False (c # cs) \<longleftrightarrow> c # takeWhile isword cs = w"
proof
  assume m: "word_at w False (c # cs)"
  define rest where "rest = drop (length w) (c # cs)"
  have split: "c # cs = w @ rest" unfolding rest_def using m by (rule word_at_split)
  have allw: "\<forall>x\<in>set w. isword x" using w by (simp add: word_token_def list_all_iff)
  have "\<not> (rest \<noteq> [] \<and> isword (hd rest))"
    using m word_token_last[OF w] by (simp add: word_at_def rest_def)
  then have "takeWhile isword rest = []" by (cases rest) auto
  then have "takeWhile isword (w @ rest) = w" using allw by (simp add: takeWhile_append2)
  then have "takeWhile isword (c # cs) = w" using split by simp
  then show "c # takeWhile isword cs = w" using c by simp
next
  assume run: "c # takeWhile isword cs = w"
  have split: "c # cs = w @ dropWhile isword cs"
    unfolding run[symmetric] by simp
  have len: "length w \<le> length (c # cs)" using split by (metis length_append le_add1)
  have t: "take (length w) (c # cs) = w" using split by (metis append_eq_conv_conj)
  have d: "drop (length w) (c # cs) = dropWhile isword cs" using split by (metis append_eq_conv_conj)
  have "\<not> (dropWhile isword cs \<noteq> [] \<and> isword (hd (dropWhile isword cs)))"
    using hd_dropWhile[of isword cs] by auto
  then show "word_at w False (c # cs)"
    using w t d word_token_hd[OF w] word_token_last[OF w]
    by (simp add: word_at_def word_token_def)
qed

lemma sub_word_run:
  assumes w: "word_token w" and c: "isword c"
  shows "sub_word w r False (c # cs)
           = (if c # takeWhile isword cs = w then r else c # takeWhile isword cs)
             @ sub_word w r False (dropWhile isword cs)"
proof (cases "word_at w False (c # cs)")
  case True
  then have run: "c # takeWhile isword cs = w" using word_at_run[OF w c] by simp
  have "c # cs = w @ dropWhile isword cs" unfolding run[symmetric] by simp
  then have d: "drop (length w) (c # cs) = dropWhile isword cs" by (metis append_eq_conv_conj)
  have nw: "takeWhile isword (dropWhile isword cs) = []"
    by (rule takeWhile_after_dropWhile)
  have dd: "dropWhile isword (dropWhile isword cs) = dropWhile isword cs"
    by (rule dropWhile_twice)
  have "sub_word w r False (c # cs) = r @ sub_word w r True (dropWhile isword cs)"
    using True d word_token_last[OF w] by simp
  also have "sub_word w r True (dropWhile isword cs) = sub_word w r False (dropWhile isword cs)"
    using sub_word_inside[OF w, of r "dropWhile isword cs"] nw dd by simp
  finally show ?thesis using run by simp
next
  case False
  then have run: "c # takeWhile isword cs \<noteq> w" using word_at_run[OF w c] by simp
  have "sub_word w r False (c # cs) = c # sub_word w r True cs" using False c by simp
  also have "sub_word w r True cs = takeWhile isword cs @ sub_word w r False (dropWhile isword cs)"
    by (rule sub_word_inside[OF w])
  finally show ?thesis using run by simp
qed

lemma sub_word_tokens:
  "word_token w \<Longrightarrow>
     sub_word w r False s = concat (map (\<lambda>t. if t = w then r else t) (tokens s))"
proof (induction s rule: tokens.induct)
  case 1
  show ?case by simp
next
  case (2 c cs)
  show ?case
  proof (cases "isword c")
    case True
    have "sub_word w r False (c # cs)
           = (if c # takeWhile isword cs = w then r else c # takeWhile isword cs)
             @ sub_word w r False (dropWhile isword cs)"
      using "2.prems" True by (rule sub_word_run)
    with "2.IH"(1)[OF True "2.prems"] True show ?thesis by simp
  next
    case False
    have "[c] \<noteq> w" using "2.prems" False by (auto simp: word_token_def)
    moreover have "sub_word w r False (c # cs) = c # sub_word w r False cs"
      using "2.prems" False by (rule sub_word_separator)
    ultimately show ?thesis using "2.IH"(2)[OF False "2.prems"] False by simp
  qed
qed

lemma concat_tokens: "concat (tokens s) = s"
  by (induction s rule: tokens.induct) auto

lemma not_both_kinds: "word_token t \<Longrightarrow> \<not> sep_token t"
  by (cases t) (auto simp: word_token_def sep_token_def)

lemma tokens_hd_kind:
  "tokens s \<noteq> [] \<Longrightarrow> (isword (hd s) \<longrightarrow> word_token (hd (tokens s)))
                     \<and> (\<not> isword (hd s) \<longrightarrow> sep_token (hd (tokens s)))"
  by (cases s) (auto simp: word_token_def sep_token_def list_all_iff dest: set_takeWhileD)

lemma tokens_after_run:
  "tokens (dropWhile isword cs) = [] \<or> sep_token (hd (tokens (dropWhile isword cs)))"
proof (cases "dropWhile isword cs")
  case Nil
  then have "tokens (dropWhile isword cs) = []" by (simp only: tokens.simps)
  then show ?thesis by blast
next
  case (Cons d ds)
  then have "\<not> isword d" using hd_dropWhile[of isword cs] by auto
  then have "tokens (d # ds) = [d] # tokens ds" by simp
  then have "sep_token (hd (tokens (dropWhile isword cs)))"
    unfolding Cons using \<open>\<not> isword d\<close> by (simp add: sep_token_def)
  then show ?thesis by blast
qed

lemma tokens_ok_Cons:
  "tokens_ok (t # ts)
     = ((sep_token t \<or> (word_token t \<and> (ts = [] \<or> sep_token (hd ts)))) \<and> tokens_ok ts)"
  by (cases ts) (auto simp: not_both_kinds)

lemma tokens_ok_tokens: "tokens_ok (tokens s)"
proof (induction s rule: tokens.induct)
  case 1
  show ?case by simp
next
  case (2 c cs)
  show ?case
  proof (cases "isword c")
    case True
    have "word_token (c # takeWhile isword cs)"
      using True by (auto simp: word_token_def list_all_iff dest: set_takeWhileD)
    with "2.IH"(1)[OF True] tokens_after_run[of cs] True show ?thesis
      by (simp add: tokens_ok_Cons)
  next
    case False
    then have "sep_token [c]" by (simp add: sep_token_def)
    with "2.IH"(2)[OF False] False show ?thesis by (simp add: tokens_ok_Cons)
  qed
qed

lemma tokens_word_then_sep:
  assumes "word_token t" and "s = [] \<or> \<not> isword (hd s)"
  shows "tokens (t @ s) = t # tokens s"
proof -
  from assms(1) obtain c t' where t: "t = c # t'" and c: "isword c" and t': "\<forall>x\<in>set t'. isword x"
    by (cases t) (auto simp: word_token_def list_all_iff)
  have nw: "takeWhile isword s = []" using assms(2) by (cases s) auto
  then have dw: "dropWhile isword s = s" by (metis append_Nil takeWhile_dropWhile_id)
  have "takeWhile isword (t' @ s) = t'" using t' nw by (simp add: takeWhile_append2)
  moreover have "dropWhile isword (t' @ s) = s" using t' dw by (simp add: dropWhile_append2)
  ultimately show ?thesis using t c by simp
qed

lemma tokens_concat: "tokens_ok ts \<Longrightarrow> tokens (concat ts) = ts"
proof (induction ts)
  case Nil
  show ?case by simp
next
  case (Cons t ts)
  from Cons.prems have ok: "tokens_ok ts" by (simp add: tokens_ok_Cons)
  note ih = Cons.IH[OF ok]
  show ?case
  proof (cases "sep_token t")
    case True
    then obtain c where "t = [c]" "\<not> isword c"
      by (cases t) (auto simp: sep_token_def)
    with ih show ?thesis by simp
  next
    case False
    with Cons.prems have w: "word_token t" and nxt: "ts = [] \<or> sep_token (hd ts)"
      by (simp_all add: tokens_ok_Cons)
    have "concat ts = [] \<or> \<not> isword (hd (concat ts))"
    proof (cases ts)
      case Nil
      then show ?thesis by simp
    next
      case (Cons u us)
      with nxt have "sep_token u" by simp
      then obtain d where "u = [d]" "\<not> isword d" by (cases u) (auto simp: sep_token_def)
      with Cons show ?thesis by simp
    qed
    with w have "tokens (t @ concat ts) = t # tokens (concat ts)" by (rule tokens_word_then_sep)
    with ih show ?thesis by simp
  qed
qed

lemma tokens_ok_map:
  assumes "tokens_ok ts"
    and "\<And>t. word_token t \<Longrightarrow> word_token (g t)"
    and "\<And>t. sep_token t \<Longrightarrow> g t = t"
  shows "tokens_ok (map g ts)"
  using assms(1)
proof (induction ts)
  case Nil
  show ?case by simp
next
  case (Cons t ts)
  then have ok: "tokens_ok (map g ts)" by (simp add: tokens_ok_Cons)
  have hd_sep: "ts \<noteq> [] \<Longrightarrow> sep_token (hd ts) \<Longrightarrow> sep_token (hd (map g ts))"
    using assms(3) by (cases ts) auto
  from Cons.prems have "sep_token t \<or> (word_token t \<and> (ts = [] \<or> sep_token (hd ts)))"
    by (simp add: tokens_ok_Cons)
  then have "sep_token (g t) \<or> (word_token (g t) \<and> (map g ts = [] \<or> sep_token (hd (map g ts))))"
    using assms(2,3) hd_sep by auto
  with ok show ?case by (simp add: tokens_ok_Cons)
qed

lemma tokens_sub_word:
  assumes "word_token w" "word_token r"
  shows "tokens (sub_word w r False s) = map (\<lambda>t. if t = w then r else t) (tokens s)"
proof -
  have "tokens_ok (map (\<lambda>t. if t = w then r else t) (tokens s))"
  proof (rule tokens_ok_map[OF tokens_ok_tokens])
    fix t assume "word_token t"
    then show "word_token (if t = w then r else t)" using assms(2) by simp
  next
    fix t assume "sep_token t"
    then have "t \<noteq> w" using assms(1) not_both_kinds by blast
    then show "(if t = w then r else t) = t" by simp
  qed
  then show ?thesis by (simp add: sub_word_tokens[OF assms(1)] tokens_concat)
qed

lemma replace_all_tokens:
  "\<forall>(w, r)\<in>set reps. word_token w \<and> word_token r \<Longrightarrow>
     replace_all reps s = concat (map (apply_replacements reps) (tokens s))
     \<and> tokens (replace_all reps s) = map (apply_replacements reps) (tokens s)"
proof (induction reps arbitrary: s)
  case Nil
  show ?case by (simp add: concat_tokens)
next
  case (Cons p reps)
  obtain w r where p: "p = (w, r)" by (cases p)
  from Cons.prems p have wr: "word_token w" "word_token r"
    and rest: "\<forall>(w, r)\<in>set reps. word_token w \<and> word_token r" by auto
  note ih = Cons.IH[OF rest, of "sub_word w r False s"]
  have t: "tokens (sub_word w r False s) = map (\<lambda>t. if t = w then r else t) (tokens s)"
    using wr by (rule tokens_sub_word)
  have m: "map (apply_replacements reps) (map (\<lambda>t. if t = w then r else t) (tokens s))
             = map (apply_replacements ((w, r) # reps)) (tokens s)"
    by (simp add: o_def)
  have step: "replace_all ((w, r) # reps) s = replace_all reps (sub_word w r False s)" by simp
  from ih have "replace_all reps (sub_word w r False s)
                  = concat (map (apply_replacements reps) (tokens (sub_word w r False s)))"
    and "tokens (replace_all reps (sub_word w r False s))
                  = map (apply_replacements reps) (tokens (sub_word w r False s))"
    by blast+
  then have "replace_all ((w, r) # reps) s
                  = concat (map (apply_replacements ((w, r) # reps)) (tokens s))"
    and "tokens (replace_all ((w, r) # reps) s)
                  = map (apply_replacements ((w, r) # reps)) (tokens s)"
    unfolding step t m by blast+
  then show ?case unfolding p by blast
qed

lemma apply_replacements_other: "t \<notin> fst ` set reps \<Longrightarrow> apply_replacements reps t = t"
  by (induction reps t rule: apply_replacements.induct) auto

lemma apply_replacements_key:
  "t \<in> fst ` set reps \<Longrightarrow> snd ` set reps \<inter> fst ` set reps = {} \<Longrightarrow>
     apply_replacements reps t \<in> snd ` set reps"
proof (induction reps arbitrary: t)
  case Nil
  then show ?case by simp
next
  case (Cons p rest)
  obtain w repl where p: "p = (w, repl)" by (cases p)
  show ?case
  proof (cases "t = w")
    case True
    have "repl \<notin> fst ` set rest" using Cons.prems(2) p by auto
    then have "apply_replacements rest repl = repl" by (rule apply_replacements_other)
    with True p show ?thesis by simp
  next
    case False
    with Cons.prems(1) p have k: "t \<in> fst ` set rest" by auto
    have d: "snd ` set rest \<inter> fst ` set rest = {}" using Cons.prems(2) by auto
    from Cons.IH[OF k d] False p show ?thesis by simp
  qed
qed

lemma apply_replacements_idem:
  assumes "snd ` set reps \<inter> fst ` set reps = {}"
  shows "apply_replacements reps (apply_replacements reps t) = apply_replacements reps t"
proof (cases "t \<in> fst ` set reps")
  case True
  then have "apply_replacements reps t \<in> snd ` set reps"
    using assms by (rule apply_replacements_key)
  with assms have "apply_replacements reps t \<notin> fst ` set reps" by auto
  then show ?thesis by (rule apply_replacements_other)
next
  case False
  then show ?thesis by (simp add: apply_replacements_other)
qed

subsection \<open>Address normalisation\<close>

lemma replacements_tokens: "\<forall>(w, r)\<in>set replacements. word_token w \<and> word_token r"
  by (simp add: replacements_def word_token_def isword_def)

lemma replacements_disjoint: "snd ` set replacements \<inter> fst ` set replacements = {}"
  by (simp add: replacements_def)

lemma replacements_upper: "\<forall>(w, r)\<in>set replacements. \<forall>c\<in>set r. to_upper c = c"
  by (simp add: replacements_def to_upper_def)

lemma word_token_nospace: "word_token t \<Longrightarrow> t \<noteq> [] \<and> (\<forall>c\<in>set t. \<not> isspace c)"
  using isspace_not_word by (auto simp: word_token_def list_all_iff)

lemma replace_all_shape:
  "\<forall>(w, r)\<in>set reps. word_token w \<and> word_token r \<Longrightarrow>
     (replace_all reps s = [] \<longleftrightarrow> s = [])
     \<and> (s \<noteq> [] \<longrightarrow> isspace (hd (replace_all reps s)) = isspace (hd s))
     \<and> (s \<noteq> [] \<longrightarrow> isspace (last (replace_all reps s)) = isspace (last s))
     \<and> (ws_ok s \<longrightarrow> ws_ok (replace_all reps s))"
proof (induction reps arbitrary: s)
  case Nil
  show ?case by simp
next
  case (Cons p reps)
  obtain w r where p: "p = (w, r)" by (cases p)
  from Cons.prems p have wr: "word_token w" "word_token r"
    and rest: "\<forall>(w, r)\<in>set reps. word_token w \<and> word_token r" by auto
  note one = sub_word_shape[of w r False s]
  have a: "(sub_word w r False s = [] \<longleftrightarrow> s = [])"
    "s \<noteq> [] \<longrightarrow> isspace (hd (sub_word w r False s)) = isspace (hd s)"
    "s \<noteq> [] \<longrightarrow> isspace (last (sub_word w r False s)) = isspace (last s)"
    "ws_ok s \<longrightarrow> ws_ok (sub_word w r False s)"
    using sub_word_shape[of w r False s] word_token_nospace[OF wr(1)] word_token_nospace[OF wr(2)]
    by blast+
  note ih = Cons.IH[OF rest, of "sub_word w r False s"]
  show ?case unfolding p using a ih by simp
qed

lemma replace_all_Nil: "replace_all reps [] = []"
  by (induction reps) auto

lemma replace_all_chars:
  "set (replace_all reps s) \<subseteq> set s \<union> (\<Union>p\<in>set reps. set (snd p))"
proof (induction reps arbitrary: s)
  case Nil
  show ?case by simp
next
  case (Cons p reps)
  obtain w r where p: "p = (w, r)" by (cases p)
  have "set (sub_word w r False s) \<subseteq> set s \<union> set r" by (rule sub_word_chars)
  with Cons.IH[of "sub_word w r False s"] show ?case unfolding p by auto
qed

lemma collapse_ws_last:
  "s \<noteq> [] \<Longrightarrow> \<not> isspace (last s) \<Longrightarrow> collapse_ws s \<noteq> [] \<and> last (collapse_ws s) = last s"
proof (induction s rule: collapse_ws.induct)
  case 1
  then show ?case by simp
next
  case (2 c cs)
  show ?case
  proof (cases "isspace c")
    case True
    with "2.prems" have cs: "cs \<noteq> []" "\<not> isspace (last cs)" by (auto split: if_splits)
    then have mem: "last cs \<in> set cs" by simp
    then have d: "dropWhile isspace cs \<noteq> []" using cs(2) by auto
    have l: "last (dropWhile isspace cs) = last cs" using mem cs(2) by (rule dropWhile_last)
    from "2.IH"(1)[OF True d] l cs(2) True cs(1) show ?thesis by simp
  next
    case False
    show ?thesis
    proof (cases "cs = []")
      case True
      with False show ?thesis by simp
    next
      case ne: False
      with "2.prems" have "\<not> isspace (last cs)" by simp
      with "2.IH"(2)[OF False ne] False ne show ?thesis by simp
    qed
  qed
qed

lemma trimmed_collapse_ws: "trimmed s \<Longrightarrow> trimmed (collapse_ws s)"
proof (cases "s = []")
  case True
  then show ?thesis by (simp add: trimmed_def)
next
  case False
  assume "trimmed s"
  with False have h: "\<not> isspace (hd s)" and l: "\<not> isspace (last s)" by (simp_all add: trimmed_def)
  from collapse_ws_last[OF False l] have ne: "collapse_ws s \<noteq> []"
    and l': "\<not> isspace (last (collapse_ws s))" using l by simp_all
  from collapse_ws_hd[OF ne] h have "\<not> isspace (hd (collapse_ws s))" by simp
  with l' show ?thesis by (simp add: trimmed_def)
qed

lemma prepared_shape:
  "trimmed (collapse_ws (strip (upper raw))) \<and> ws_ok (collapse_ws (strip (upper raw)))
   \<and> (\<forall>c\<in>set (collapse_ws (strip (upper raw))). to_upper c = c)"
proof -
  have "\<forall>c\<in>set (collapse_ws (strip (upper raw))). to_upper c = c"
  proof
    fix c assume "c \<in> set (collapse_ws (strip (upper raw)))"
    then have "c = CHR '' '' \<or> c \<in> set (strip (upper raw))" using set_collapse_ws by blast
    then have "c = CHR '' '' \<or> c \<in> set (upper raw)" using set_strip by blast
    then show "to_upper c = c"
    proof
      assume "c = CHR '' ''"
      then show ?thesis by (simp add: to_upper_def)
    next
      assume "c \<in> set (upper raw)"
      then obtain x where "c = to_upper x" by (auto simp: upper_def)
      then show ?thesis by (simp add: to_upper_idem)
    qed
  qed
  then show ?thesis
    by (simp add: trimmed_collapse_ws trimmed_strip ws_ok_collapse)
qed

lemma fixed_by_preparation:
  assumes "trimmed m" "ws_ok m" "\<forall>c\<in>set m. to_upper c = c"
  shows "collapse_ws (strip (upper m)) = m"
proof -
  have "upper m = m" using assms(3) by (simp add: upper_def map_idI)
  moreover have "strip m = m" using assms(1) by (rule strip_id)
  moreover have "collapse_ws m = m" using assms(2) by (rule collapse_ws_id)
  ultimately show ?thesis by simp
qed

lemma normalize_addr_shape:
  "trimmed (normalize_addr a) \<and> ws_ok (normalize_addr a)
   \<and> (\<forall>c\<in>set (normalize_addr a). to_upper c = c)"
proof (cases a)
  case None
  then show ?thesis by (simp add: normalize_addr_def trimmed_def)
next
  case (Some raw)
  define c where "c = collapse_ws (strip (upper raw))"
  have p: "trimmed c" "ws_ok c" "\<forall>x\<in>set c. to_upper x = x"
    using prepared_shape[of raw] by (simp_all add: c_def)
  note sh = replace_all_shape[OF replacements_tokens, of c]
  have t: "trimmed (replace_all replacements c)"
    using p(1) sh unfolding trimmed_def by (cases "c = []") auto
  have w: "ws_ok (replace_all replacements c)" using p(2) sh by simp
  have u: "\<forall>x\<in>set (replace_all replacements c). to_upper x = x"
  proof
    fix x assume "x \<in> set (replace_all replacements c)"
    then have "x \<in> set c \<or> (\<exists>p\<in>set replacements. x \<in> set (snd p))"
      using replace_all_chars[of replacements c] by auto
    then show "to_upper x = x" using p(3) replacements_upper by auto
  qed
  from t w u Some show ?thesis by (simp add: normalize_addr_def c_def)
qed

lemma normalize_addr_idempotent:
  "normalize_addr (Some (normalize_addr a)) = normalize_addr a"
proof (cases a)
  case None
  then show ?thesis
    by (simp add: normalize_addr_def upper_def strip_def lstrip_def rstrip_def replace_all_Nil)
next
  case (Some raw)
  define c where "c = collapse_ws (strip (upper raw))"
  define m where "m = replace_all replacements c"
  have m: "normalize_addr a = m" using Some by (simp add: normalize_addr_def m_def c_def)
  have "trimmed m" "ws_ok m" "\<forall>x\<in>set m. to_upper x = x"
    using normalize_addr_shape[of a] by (simp_all add: m)
  then have prep: "collapse_ws (strip (upper m)) = m" by (rule fixed_by_preparation)
  note tok = replace_all_tokens[OF replacements_tokens]
  have "normalize_addr (Some m) = replace_all replacements m"
    by (simp add: normalize_addr_def prep)
  also have "\<dots> = concat (map (apply_replacements replacements) (tokens m))"
    using tok[of m] by blast
  also have "tokens m = map (apply_replacements replacements) (tokens c)"
    unfolding m_def using tok[of c] by blast
  also have "map (apply_replacements replacements) (map (apply_replacements replacements) (tokens c))
               = map (apply_replacements replacements) (tokens c)"
    by (simp add: apply_replacements_idem[OF replacements_disjoint])
  also have "concat (map (apply_replacements replacements) (tokens c)) = m"
    unfolding m_def using tok[of c] by simp
  finally show ?thesis by (simp add: m)
qed

lemma normalize_address_cell_idempotent:
  "normalize_address_cell (normalize_address_cell c) = normalize_address_cell c"
proof (cases c)
  case (Str raw)
  have "trimmed (collapse_ws (strip (upper raw)))" "ws_ok (collapse_ws (strip (upper raw)))"
    "\<forall>x\<in>set (collapse_ws (strip (upper raw))). to_upper x = x"
    using prepared_shape[of raw] by simp_all
  then have "collapse_ws (strip (upper (collapse_ws (strip (upper raw)))))
               = collapse_ws (strip (upper raw))"
    by (rule fixed_by_preparation)
  with Str show ?thesis by (simp add: normalize_address_cell_def str_map_def)
qed (simp_all add: normalize_address_cell_def str_map_def)

text \<open>
  Claim C8, as amended. Both address normalisers are idempotent. normalize_addr of the
  CrossDatasetAnalyzer (upper-case, trim, collapse whitespace, the twelve whole-word
  replacements) gives the empty string for a missing and for an empty address. The
  normaliser of the LicenseAnalyzer upper-cases, trims and collapses whitespace and
  does nothing else: it has no replacements, and a missing address stays missing.
\<close>

theorem address_normalization_idempotent:
  "normalize_addr (Some (normalize_addr a)) = normalize_addr a
   \<and> normalize_addr None = []
   \<and> normalize_addr (Some []) = []
   \<and> normalize_address_cell (normalize_address_cell c) = normalize_address_cell c
   \<and> normalize_address_cell (Str s) = Str (collapse_ws (strip (upper s)))
   \<and> normalize_address_cell Null = Null"
proof -
  have "normalize_addr None = []" by (simp add: normalize_addr_def)
  moreover have "normalize_addr (Some []) = []"
    by (simp add: normalize_addr_def upper_def strip_def lstrip_def rstrip_def replace_all_Nil)
  moreover have "normalize_address_cell (Str s) = Str (collapse_ws (strip (upper s)))"
    "normalize_address_cell Null = Null"
    by (simp_all add: normalize_address_cell_def str_map_def)
  ultimately show ?thesis
    using normalize_addr_idempotent[of a] normalize_address_cell_idempotent[of c] by simp
qed

text \<open>
  Claim C8, counterexample. In the LicenseAnalyzer the address \<^verbatim>\<open>100 Main Street\<close> keeps
  its street word and a missing address stays missing, where normalize_addr gives
  \<^verbatim>\<open>100 MAIN ST\<close> and the empty string.
\<close>

theorem license_addresses_not_abbreviated:
  "column (normalize_data id example_addresses) ''address_normalized''
     = [Str ''100 MAIN STREET'', Null]
   \<and> normalize_addr (Some ''100 Main Street'') = ''100 MAIN ST''
   \<and> normalize_addr None = []"
  by code_simp

end
